theory Spec2Isabelle
  imports Main "HOL-Library.Sublist"
begin

section \<open>JavaScript values and strings\<close>

text \<open>
  Strings are lists of 8-bit characters: the launcher's paths, property lines and
  manifest names are treated as ASCII text. Numbers are the integers a double holds
  (sizes, version components), and the sums and differences of sizes are taken
  exactly, as the engine takes them while they stay below \<open>2^53\<close>; the two
  non-numbers a version field can hold,
  \<open>NaN\<close> (what \<open>parseInt\<close> gives on a string without digits) and
  \<open>undefined\<close> (a field the parser never set), are values of their own, since
  \<open>===\<close> and \<open>>\<close> treat them differently from numbers.
\<close>

datatype jsval = Num int | NaN | Undefined

text \<open>Strict equality \<open>a === b\<close> on these values: \<open>NaN\<close> equals nothing.\<close>

fun js_seq :: "jsval \<Rightarrow> jsval \<Rightarrow> bool" where
  "js_seq (Num a) (Num b) = (a = b)"
| "js_seq Undefined Undefined = True"
| "js_seq _ _ = False"

text \<open>\<open>a > b\<close> and \<open>a < b\<close>: false as soon as one side is not a number.\<close>

fun js_gt :: "jsval \<Rightarrow> jsval \<Rightarrow> bool" where
  "js_gt (Num a) (Num b) = (a > b)"
| "js_gt _ _ = False"

fun js_lt :: "jsval \<Rightarrow> jsval \<Rightarrow> bool" where
  "js_lt (Num a) (Num b) = (a < b)"
| "js_lt _ _ = False"

section \<open>Strings (the JavaScript string methods the launcher calls)\<close>

text \<open>\<open>s.endsWith(t)\<close>.\<close>

definition endsWith :: "string \<Rightarrow> string \<Rightarrow> bool" where
  "endsWith s t = (length t \<le> length s \<and> drop (length s - length t) s = t)"

text \<open>\<open>s.startsWith(t)\<close>, used to scan for a substring.\<close>

definition startsWith :: "string \<Rightarrow> string \<Rightarrow> bool" where
  "startsWith s t = (take (length t) s = t)"

text \<open>
  \<open>s.indexOf(t)\<close>: the first position where \<open>t\<close> occurs, \<open>None\<close> for -1.
  Every use in the launcher compares the result with -1 or cuts at it.
\<close>

fun indexOf :: "string \<Rightarrow> string \<Rightarrow> nat option" where
  "indexOf [] t = (if t = [] then Some 0 else None)"
| "indexOf (c # s) t =
     (if startsWith (c # s) t then Some 0
      else (case indexOf s t of None \<Rightarrow> None | Some i \<Rightarrow> Some (Suc i)))"

text \<open>\<open>s.indexOf(t) > -1\<close> (and \<open>s.lastIndexOf(t) > -1\<close>, which holds for the same strings).\<close>

definition includes_str :: "string \<Rightarrow> string \<Rightarrow> bool" where
  "includes_str s t = (indexOf s t \<noteq> None)"

text \<open>\<open>s.toLowerCase()\<close> on ASCII text.\<close>

definition lower_char :: "char \<Rightarrow> char" where
  "lower_char c =
     (case map_of (zip ''ABCDEFGHIJKLMNOPQRSTUVWXYZ'' ''abcdefghijklmnopqrstuvwxyz'') c of
        None \<Rightarrow> c
      | Some l \<Rightarrow> l)"

definition toLowerCase :: "string \<Rightarrow> string" where
  "toLowerCase s = map lower_char s"

text \<open>
  \<open>s.split(c)\<close> for a one-character separator, stated for a set of separator
  characters so that the path module can split at either slash: n separators give
  n + 1 pieces, the empty string gives one empty piece.
\<close>

fun split_by :: "(char \<Rightarrow> bool) \<Rightarrow> string \<Rightarrow> string list" where
  "split_by isSep [] = [[]]"
| "split_by isSep (c # s) =
     (if isSep c then [] # split_by isSep s
      else (case split_by isSep s of [] \<Rightarrow> [[c]] | p # ps \<Rightarrow> (c # p) # ps))"

definition split_chr :: "char \<Rightarrow> string \<Rightarrow> string list" where
  "split_chr c s = split_by (\<lambda>x. x = c) s"

text \<open>\<open>parts.join(sep)\<close>.\<close>

fun join_with :: "string \<Rightarrow> string list \<Rightarrow> string" where
  "join_with sep [] = []"
| "join_with sep [x] = x"
| "join_with sep (x # y # ys) = x @ sep @ join_with sep (y # ys)"

section \<open>The platform's path module\<close>

text \<open>
  \<open>path.join\<close> belongs to the runtime, not to the launcher; it is modelled after
  the documented algorithm of the runtime's path module: the non-empty arguments are
  joined with the platform separator and the result is normalised, that is, split
  into segments, with empty and \<open>.\<close> segments dropped and \<open>..\<close> removing the
  segment before it.
\<close>

definition backslash :: char where
  "backslash = CHR 0x5C"

definition isPosixPathSeparator :: "char \<Rightarrow> bool" where
  "isPosixPathSeparator c = (c = CHR ''/'')"

definition isPathSeparator :: "char \<Rightarrow> bool" where
  "isPathSeparator c = (c = CHR ''/'' \<or> c = backslash)"

definition isWindowsDeviceRoot :: "char \<Rightarrow> bool" where
  "isWindowsDeviceRoot c =
     (let n = (of_char c :: nat) in (65 \<le> n \<and> n \<le> 90) \<or> (97 \<le> n \<and> n \<le> 122))"

text \<open>One segment of \<open>normalizeString\<close>; \<open>res\<close> is the list of segments kept so far.\<close>

definition normalize_segment :: "bool \<Rightarrow> string list \<Rightarrow> string \<Rightarrow> string list" where
  "normalize_segment allowAboveRoot res seg =
     (if seg = [] \<or> seg = ''.'' then res
      else if seg = ''..'' then
        (if res \<noteq> [] \<and> last res \<noteq> ''..'' then butlast res
         else if allowAboveRoot then res @ [''..''] else res)
      else res @ [seg])"

definition normalizeString :: "bool \<Rightarrow> string \<Rightarrow> (char \<Rightarrow> bool) \<Rightarrow> string \<Rightarrow> string" where
  "normalizeString allowAboveRoot separator isSep path =
     join_with separator (foldl (normalize_segment allowAboveRoot) [] (split_by isSep path))"

definition posix_normalize :: "string \<Rightarrow> string" where
  "posix_normalize path =
     (if path = [] then ''.''
      else
        (let isAbsolute = (hd path = CHR ''/'');
             trailingSeparator = (last path = CHR ''/'');
             p = normalizeString (\<not> isAbsolute) ''/'' isPosixPathSeparator path
         in if p = [] then (if isAbsolute then ''/'' else if trailingSeparator then ''./'' else ''.'')
            else (let p' = (if trailingSeparator then p @ ''/'' else p)
                  in if isAbsolute then ''/'' @ p' else p')))"

definition posix_join :: "string list \<Rightarrow> string" where
  "posix_join args =
     (let parts = filter (\<lambda>arg. arg \<noteq> []) args
      in if parts = [] then ''.'' else posix_normalize (join_with ''/'' parts))"

text \<open>
  The root of a Windows path: a UNC root (two separators, a server name, separators,
  a share name), a single leading separator, or a drive letter with its colon. The
  result is either the whole normalised path (a UNC root with nothing after it) or
  the part after the root, the device and whether the path is absolute.
\<close>

definition win32_root :: "string \<Rightarrow> string + (string \<times> string option \<times> bool)" where
  "win32_root path =
     (case path of
        c0 # c1 # r \<Rightarrow>
          if isPathSeparator c0 then
            (if isPathSeparator c1 then
               (let firstPart = takeWhile (\<lambda>c. \<not> isPathSeparator c) r;
                    r1 = dropWhile (\<lambda>c. \<not> isPathSeparator c) r
                in if r1 \<noteq> [] \<and> firstPart \<noteq> [] then
                     (let r2 = dropWhile isPathSeparator r1
                      in if r2 \<noteq> [] \<and> r2 \<noteq> r1 then
                           (let share = takeWhile (\<lambda>c. \<not> isPathSeparator c) r2;
                                r3 = dropWhile (\<lambda>c. \<not> isPathSeparator c) r2
                            in if r3 = [] then
                                 Inl ([backslash, backslash] @ firstPart @ [backslash] @ r2 @ [backslash])
                               else if share \<noteq> [] then
                                 Inr (r3, Some ([backslash, backslash] @ firstPart @ [backslash] @ share), True)
                               else Inr (path, None, True))
                         else Inr (path, None, True))
                   else Inr (path, None, True))
             else Inr (c1 # r, None, True))
          else if isWindowsDeviceRoot c0 \<and> c1 = CHR '':'' then
            (case r of
               [] \<Rightarrow> Inr ([], Some [c0, c1], False)
             | c2 # r' \<Rightarrow>
                 if isPathSeparator c2 then Inr (r', Some [c0, c1], True)
                 else Inr (r, Some [c0, c1], False))
          else Inr (path, None, False)
      | _ \<Rightarrow> Inr (path, None, False))"

definition win32_normalize :: "string \<Rightarrow> string" where
  "win32_normalize path =
     (if path = [] then ''.''
      else if length path = 1 then (if isPosixPathSeparator (hd path) then [backslash] else path)
      else
        (case win32_root path of
           Inl unc \<Rightarrow> unc
         | Inr (rest, device, isAbsolute) \<Rightarrow>
             (let t0 = (if rest \<noteq> []
                        then normalizeString (\<not> isAbsolute) [backslash] isPathSeparator rest
                        else []);
                  t1 = (if t0 = [] \<and> \<not> isAbsolute then ''.'' else t0);
                  t2 = (if t1 \<noteq> [] \<and> isPathSeparator (last path) then t1 @ [backslash] else t1)
              in case device of
                   None \<Rightarrow> (if isAbsolute then [backslash] @ t2 else t2)
                 | Some d \<Rightarrow> (if isAbsolute then d @ [backslash] @ t2 else d @ t2))))"

text \<open>
  \<open>path.win32.join\<close>: leading separators of the joined string are collapsed to one,
  unless the first non-empty argument starts with exactly two separators followed by
  another character (a UNC path).
\<close>

definition win32_join :: "string list \<Rightarrow> string" where
  "win32_join args =
     (let parts = filter (\<lambda>arg. arg \<noteq> []) args
      in if parts = [] then ''.''
         else
           (let joined = join_with [backslash] parts;
                firstPart = hd parts;
                needsReplace =
                  (\<not> (isPathSeparator (hd firstPart) \<and> length firstPart > 2 \<and>
                      isPathSeparator (firstPart ! 1) \<and> \<not> isPathSeparator (firstPart ! 2)));
                slashCount = length (takeWhile isPathSeparator joined)
            in win32_normalize
                 (if needsReplace \<and> slashCount \<ge> 2 then [backslash] @ drop slashCount joined
                  else joined)))"

text \<open>\<open>path.join\<close> as \<open>process.platform\<close> selects it.\<close>

definition path_join :: "string \<Rightarrow> string list \<Rightarrow> string" where
  "path_join platform args = (if platform = ''win32'' then win32_join args else posix_join args)"

section \<open>Java executables (assetguard.js, class JavaGuard)\<close>

text \<open>\<open>JavaGuard.javaExecFromRoot(rootDir)\<close>.\<close>

definition javaExecFromRoot :: "string \<Rightarrow> string \<Rightarrow> string" where
  "javaExecFromRoot platform rootDir =
     (if platform = ''win32'' then path_join platform [rootDir, ''bin'', ''javaw.exe'']
      else if platform = ''darwin'' then
        path_join platform [rootDir, ''Contents'', ''Home'', ''bin'', ''java'']
      else if platform = ''linux'' then path_join platform [rootDir, ''bin'', ''java'']
      else rootDir)"

text \<open>\<open>JavaGuard.isJavaExecPath(pth)\<close>.\<close>

definition isJavaExecPath :: "string \<Rightarrow> string \<Rightarrow> bool" where
  "isJavaExecPath platform pth =
     (if platform = ''win32'' then endsWith pth (path_join platform [''bin'', ''javaw.exe''])
      else if platform = ''darwin'' then endsWith pth (path_join platform [''bin'', ''java''])
      else if platform = ''linux'' then endsWith pth (path_join platform [''bin'', ''java''])
      else False)"

section \<open>Library rules (assetguard.js, class Library)\<close>

text \<open>\<open>Library.mojangFriendlyOS\<close>, with \<open>process.platform\<close> as its argument.\<close>

definition mojangFriendlyOS :: "string \<Rightarrow> string" where
  "mojangFriendlyOS opSys =
     (if opSys = ''darwin'' then ''osx''
      else if opSys = ''win32'' then ''windows''
      else if opSys = ''linux'' then ''linux''
      else ''unknown_os'')"

text \<open>
  A rule of the version manifest: \<open>rule.action\<close> and \<open>rule.os\<close> may be absent
  (\<open>None\<close>), and so may \<open>rule.os.name\<close>.
\<close>

record os_prop =
  os_name :: "string option"

record rule =
  rule_action :: "string option"
  rule_os :: "os_prop option"

text \<open>
  The \<open>for\<close> loop of \<open>Library.validateRules\<close>: the first rule that has an action
  and an os property and whose action is \<open>allow\<close> or \<open>disallow\<close> returns.
\<close>

fun validateRules_loop :: "string \<Rightarrow> rule list \<Rightarrow> bool" where
  "validateRules_loop opSys [] = True"
| "validateRules_loop opSys (r # rs) =
     (case rule_action r of
        None \<Rightarrow> validateRules_loop opSys rs
      | Some action \<Rightarrow>
          (case rule_os r of
             None \<Rightarrow> validateRules_loop opSys rs
           | Some osProp \<Rightarrow>
               if action = ''allow'' then os_name osProp = Some (mojangFriendlyOS opSys)
               else if action = ''disallow'' then os_name osProp \<noteq> Some (mojangFriendlyOS opSys)
               else validateRules_loop opSys rs))"

text \<open>
  \<open>Library.validateRules(rules, natives)\<close>. The natives object is an association
  list from OS names to classifier names; \<open>natives[os] != null\<close> is a successful
  lookup.
\<close>

definition validateRules ::
  "string \<Rightarrow> rule list option \<Rightarrow> (string \<times> string) list option \<Rightarrow> bool" where
  "validateRules opSys rules natives =
     (case rules of
        None \<Rightarrow>
          (case natives of
             None \<Rightarrow> True
           | Some n \<Rightarrow> map_of n (mojangFriendlyOS opSys) \<noteq> None)
      | Some rs \<Rightarrow> validateRules_loop opSys rs)"

text \<open>
  The rule evaluation in the words of the specification: a rule matches when it is an
  allow or disallow rule keyed by the current OS name; the first matching rule decides
  (allow includes, disallow excludes), and the default is allow.
\<close>

definition spec_rule_matches :: "string \<Rightarrow> rule \<Rightarrow> bool" where
  "spec_rule_matches opSys r =
     ((rule_action r = Some ''allow'' \<or> rule_action r = Some ''disallow'') \<and>
      (case rule_os r of
         None \<Rightarrow> False
       | Some osProp \<Rightarrow> os_name osProp = Some (mojangFriendlyOS opSys)))"

fun spec_first_matching_rule_decides :: "string \<Rightarrow> rule list \<Rightarrow> bool" where
  "spec_first_matching_rule_decides opSys [] = True"
| "spec_first_matching_rule_decides opSys (r # rs) =
     (if spec_rule_matches opSys r then rule_action r = Some ''allow''
      else spec_first_matching_rule_decides opSys rs)"

text \<open>
  What the code does: a rule decides when it carries an os property and its action is
  allow or disallow, whatever OS it names.
\<close>

definition deciding_rule :: "rule \<Rightarrow> bool" where
  "deciding_rule r =
     (rule_os r \<noteq> None \<and>
      (rule_action r = Some ''allow'' \<or> rule_action r = Some ''disallow''))"

definition rule_verdict :: "string \<Rightarrow> rule \<Rightarrow> bool" where
  "rule_verdict opSys r =
     (let named = (case rule_os r of None \<Rightarrow> None | Some osProp \<Rightarrow> os_name osProp)
      in if rule_action r = Some ''allow'' then named = Some (mojangFriendlyOS opSys)
         else named \<noteq> Some (mojangFriendlyOS opSys))"

text \<open>
  Two notions used to reason about joined paths: a plain segment (non-empty, neither
  \<open>.\<close> nor \<open>..\<close>, free of separators) survives normalisation unchanged, and
  \<open>exec_sfx\<close> is the Windows suffix \<open>bin\\javaw.exe\<close>.
\<close>

definition plain_segment :: "(char \<Rightarrow> bool) \<Rightarrow> string \<Rightarrow> bool" where
  "plain_segment isSep s = (s \<noteq> [] \<and> s \<noteq> ''.'' \<and> s \<noteq> ''..'' \<and> list_all (\<lambda>c. \<not> isSep c) s)"

definition exec_sfx :: string where
  "exec_sfx = ''bin'' @ [backslash] @ ''javaw.exe''"

section \<open>Parsing helpers\<close>

text \<open>
  What the modelled code can throw: the two exception classes, the value
  \<open>undefined\<close> that an \<open>await\<close> throws for a promise rejected without a reason,
  and the error of the archive library on a file it cannot open.
\<close>

datatype js_error = TypeError | ReferenceError | Thrown_undefined | Archive_error

text \<open>\<open>arr[i]\<close>: \<open>undefined\<close> (\<open>None\<close>) past the end.\<close>

fun nth_opt :: "'a list \<Rightarrow> nat \<Rightarrow> 'a option" where
  "nth_opt [] i = None"
| "nth_opt (x # xs) 0 = Some x"
| "nth_opt (x # xs) (Suc i) = nth_opt xs i"

text \<open>\<open>s.trim()\<close> and the white space \<open>parseInt\<close> skips, on ASCII text.\<close>

definition is_ws :: "char \<Rightarrow> bool" where
  "is_ws c = (c \<in> set [CHR '' '', CHR 0x09, CHR 0x0A, CHR 0x0B, CHR 0x0C, CHR 0x0D])"

definition trim :: "string \<Rightarrow> string" where
  "trim s = rev (dropWhile is_ws (rev (dropWhile is_ws s)))"

definition digit_val :: "char \<Rightarrow> nat option" where
  "digit_val c = map_of (zip ''0123456789'' [0 ..< 10]) c"

definition hex_val :: "char \<Rightarrow> nat option" where
  "hex_val c =
     map_of (zip ''0123456789abcdef'' [0 ..< 16] @ zip ''ABCDEF'' [10 ..< 16]) c"

text \<open>The longest prefix of digits of the radix, as their values.\<close>

fun leading_digits :: "(char \<Rightarrow> nat option) \<Rightarrow> string \<Rightarrow> nat list" where
  "leading_digits dv [] = []"
| "leading_digits dv (c # s) =
     (case dv c of None \<Rightarrow> [] | Some d \<Rightarrow> d # leading_digits dv s)"

definition digits_value :: "int \<Rightarrow> nat list \<Rightarrow> int" where
  "digits_value radix ds = foldl (\<lambda>n d. n * radix + int d) 0 ds"

text \<open>
  The number the engine makes of a mathematical integer: the nearest double, a tie
  going to the even significand of 53 bits. An integer below \<open>2^53\<close> in magnitude
  is a double. From \<open>2^1024\<close> on the engine has \<open>Infinity\<close>, which stands here as
  \<open>2^1024\<close>: above every finite double and equal to itself, so that \<open>===\<close>,
  \<open>>\<close> and \<open><\<close> answer on it as the engine does.
\<close>

function bit_length :: "int \<Rightarrow> nat" where
  "bit_length n = (if n \<le> 0 then 0 else Suc (bit_length (n div 2)))"
  by pat_completeness auto
termination
  by (relation "measure nat") auto

definition to_double :: "int \<Rightarrow> int" where
  "to_double n =
     (let a = \<bar>n\<bar>; k = bit_length a
      in if k \<le> 53 then n
         else (let e = k - 53; q = a div 2 ^ e; r = a mod 2 ^ e;
                   q' = (if 2 * r > 2 ^ e \<or> (2 * r = 2 ^ e \<and> odd q) then q + 1 else q);
                   v = q' * 2 ^ e
               in sgn n * (if v \<ge> 2 ^ 1024 then 2 ^ 1024 else v)))"

text \<open>
  \<open>parseInt(s)\<close> without a radix: leading white space is skipped, a sign is read, a
  \<open>0x\<close> prefix selects radix 16, and the longest prefix of digits is the value,
  rounded to a double; \<open>NaN\<close> when there is no digit.
\<close>

definition parseInt :: "string \<Rightarrow> jsval" where
  "parseInt s =
     (let s1 = dropWhile is_ws s;
          negative = (take 1 s1 = ''-'');
          s2 = (if take 1 s1 = ''-'' \<or> take 1 s1 = ''+'' then drop 1 s1 else s1);
          hex = (take 2 s2 = ''0x'' \<or> take 2 s2 = ''0X'');
          ds = (if hex then leading_digits hex_val (drop 2 s2) else leading_digits digit_val s2)
      in if ds = [] then NaN
         else Num (to_double ((if negative then - 1 else 1) * digits_value (if hex then 16 else 10) ds)))"

text \<open>\<open>parseInt(x)\<close> where \<open>x\<close> may be \<open>undefined\<close>: the string "undefined" has no digit.\<close>

definition parseInt_opt :: "string option \<Rightarrow> jsval" where
  "parseInt_opt x = (case x of None \<Rightarrow> NaN | Some s \<Rightarrow> parseInt s)"

section \<open>Java runtime versions (assetguard.js, class JavaGuard)\<close>

text \<open>
  The version object: the Java 8 parser sets \<open>build\<close>, \<open>update\<close> and \<open>major\<close>, the
  Java 9 parser \<open>build\<close>, \<open>major\<close>, \<open>minor\<close> and \<open>revision\<close>; a field a parser does
  not set is \<open>undefined\<close>.
\<close>

record java_version =
  ver_major :: jsval
  ver_minor :: jsval
  ver_revision :: jsval
  ver_update :: jsval
  ver_build :: jsval

text \<open>
  \<open>JavaGuard._parseJavaRuntimeVersion_8\<close>: \<open>pts[1].substring(1)\<close> raises a
  TypeError when the string has no \<open>-\<close>.
\<close>

definition parseJavaRuntimeVersion_8 :: "string \<Rightarrow> js_error + java_version" where
  "parseJavaRuntimeVersion_8 verString =
     (let pts = split_chr CHR ''-'' verString
      in case nth_opt pts 1 of
           None \<Rightarrow> Inl TypeError
         | Some p1 \<Rightarrow>
             (let build = parseInt (drop 1 p1);
                  pts' = split_chr CHR ''_'' (hd pts);
                  update = parseInt_opt (nth_opt pts' 1);
                  major = parseInt_opt (nth_opt (split_chr CHR ''.'' (hd pts')) 1)
              in Inr \<lparr>ver_major = major, ver_minor = Undefined, ver_revision = Undefined,
                      ver_update = update, ver_build = build\<rparr>))"

text \<open>\<open>JavaGuard._parseJavaRuntimeVersion_9\<close>.\<close>

definition parseJavaRuntimeVersion_9 :: "string \<Rightarrow> js_error + java_version" where
  "parseJavaRuntimeVersion_9 verString =
     (let pts = split_chr CHR ''+'' verString;
          build = parseInt_opt (nth_opt pts 1);
          pts' = split_chr CHR ''.'' (hd pts)
      in Inr \<lparr>ver_major = parseInt (hd pts'), ver_minor = parseInt_opt (nth_opt pts' 1),
              ver_revision = parseInt_opt (nth_opt pts' 2), ver_update = Undefined,
              ver_build = build\<rparr>)"

text \<open>
  \<open>JavaGuard.parseJavaRuntimeVersion\<close>. The test \<open>major == 1\<close> compares a string
  with a number through the engine's string-to-number conversion; that conversion is
  the parameter \<open>looseEqOne\<close>, and every result below holds for any choice of it.
\<close>

definition parseJavaRuntimeVersion :: "(string \<Rightarrow> bool) \<Rightarrow> string \<Rightarrow> js_error + java_version" where
  "parseJavaRuntimeVersion looseEqOne verString =
     (let major = hd (split_chr CHR ''.'' verString)
      in if looseEqOne major then parseJavaRuntimeVersion_8 verString
         else parseJavaRuntimeVersion_9 verString)"

text \<open>
  The meta object of a JVM: \<open>arch\<close>, \<open>version\<close> and \<open>vendor\<close> are set by
  \<open>_validateJVMProperties\<close> when the matching line is accepted, \<open>execPath\<close> by
  \<open>_validateJavaRootSet\<close>.
\<close>

record jvm_meta =
  meta_arch :: "int option"
  meta_version :: "java_version option"
  meta_vendor :: "string option"
  meta_valid :: bool
  meta_execPath :: "string option"


text \<open>\<open>props[i].split('=')[1].trim()\<close>: a TypeError when the line has no \<open>=\<close>.\<close>

definition property_text :: "string \<Rightarrow> js_error + string" where
  "property_text line =
     (case nth_opt (split_chr CHR ''='' line) 1 of
        None \<Rightarrow> Inl TypeError
      | Some v \<Rightarrow> Inr (trim v))"

definition goal :: nat where
  "goal = 2"

text \<open>
  The loop of \<open>JavaGuard._validateJVMProperties\<close> over the lines that remain, with the
  running \<open>checksum\<close> and \<open>meta\<close>; it stops (\<open>break\<close>) when the checksum reaches
  the goal.
\<close>

primrec validateJVMProperties_loop ::
  "(string \<Rightarrow> bool) \<Rightarrow> string list \<Rightarrow> nat \<Rightarrow> jvm_meta \<Rightarrow> js_error + (jvm_meta \<times> nat)" where
  "validateJVMProperties_loop looseEqOne [] checksum meta = Inr (meta, checksum)"
| "validateJVMProperties_loop looseEqOne (line # props) checksum meta =
     (if includes_str line ''sun.arch.data.model'' then
        (case property_text line of
           Inl e \<Rightarrow> Inl e
         | Inr arch \<Rightarrow>
             if parseInt arch = Num 64 then
               (if Suc checksum = goal then Inr (meta\<lparr>meta_arch := Some 64\<rparr>, Suc checksum)
                else validateJVMProperties_loop looseEqOne props (Suc checksum)
                       (meta\<lparr>meta_arch := Some 64\<rparr>))
             else validateJVMProperties_loop looseEqOne props checksum meta)
      else if includes_str line ''java.runtime.version'' then
        (case property_text line of
           Inl e \<Rightarrow> Inl e
         | Inr verString \<Rightarrow>
             (case parseJavaRuntimeVersion looseEqOne verString of
                Inl e \<Rightarrow> Inl e
              | Inr verOb \<Rightarrow>
                  if js_seq (ver_major verOb) (Num 8) \<and> js_gt (ver_update verOb) (Num 52) then
                    (if Suc checksum = goal
                     then Inr (meta\<lparr>meta_version := Some verOb\<rparr>, Suc checksum)
                     else validateJVMProperties_loop looseEqOne props (Suc checksum)
                            (meta\<lparr>meta_version := Some verOb\<rparr>))
                  else validateJVMProperties_loop looseEqOne props checksum meta))
      else if includes_str line ''java.vendor '' then
        (case property_text line of
           Inl e \<Rightarrow> Inl e
         | Inr vendorName \<Rightarrow>
             validateJVMProperties_loop looseEqOne props checksum
               (meta\<lparr>meta_vendor := Some vendorName\<rparr>))
      else validateJVMProperties_loop looseEqOne props checksum meta)"






text \<open>
  The comparator of \<open>JavaGuard._sortValidJavaArray\<close>: a negative result places \<open>a\<close>
  before \<open>b\<close>. Reading \<open>a.version.major\<close> or \<open>a.execPath.toLowerCase()\<close> of a meta
  object without that field raises a TypeError.
\<close>

definition jdk_tiebreak :: "jvm_meta \<Rightarrow> jvm_meta \<Rightarrow> js_error + int" where
  "jdk_tiebreak a b =
     (case meta_execPath a of
        None \<Rightarrow> Inl TypeError
      | Some pa \<Rightarrow>
          if includes_str (toLowerCase pa) ''jdk'' then
            (case meta_execPath b of
               None \<Rightarrow> Inl TypeError
             | Some pb \<Rightarrow> Inr (if includes_str (toLowerCase pb) ''jdk'' then 0 else 1))
          else Inr (- 1))"

definition sortCompare :: "jvm_meta \<Rightarrow> jvm_meta \<Rightarrow> js_error + int" where
  "sortCompare a b =
     (case meta_version a of
        None \<Rightarrow> Inl TypeError
      | Some va \<Rightarrow>
          (case meta_version b of
             None \<Rightarrow> Inl TypeError
           | Some vb \<Rightarrow>
               if js_seq (ver_major va) (ver_major vb) then
                 (if js_lt (ver_major va) (Num 9) then
                    (if js_seq (ver_update va) (ver_update vb) then
                       (if js_seq (ver_build va) (ver_build vb) then jdk_tiebreak a b
                        else Inr (if js_gt (ver_build va) (ver_build vb) then - 1 else 1))
                     else Inr (if js_gt (ver_update va) (ver_update vb) then - 1 else 1))
                  else
                    (if js_seq (ver_minor va) (ver_minor vb) then
                       (if js_seq (ver_revision va) (ver_revision vb) then jdk_tiebreak a b
                        else Inr (if js_gt (ver_revision va) (ver_revision vb) then - 1 else 1))
                     else Inr (if js_gt (ver_minor va) (ver_minor vb) then - 1 else 1)))
               else Inr (if js_gt (ver_major va) (ver_major vb) then - 1 else 1)))"

text \<open>
  \<open>a\<close> ranks above \<open>b\<close>: the comparator places \<open>a\<close> first whichever way the
  engine's sort asks.
\<close>

definition ranks_above :: "jvm_meta \<Rightarrow> jvm_meta \<Rightarrow> bool" where
  "ranks_above a b = (sortCompare a b = Inr (- 1) \<and> sortCompare b a = Inr 1)"

text \<open>
  The order the sort guarantees on its result when the comparator is consistent: no
  later element is placed before an earlier one.
\<close>

definition sorted_by_compare :: "jvm_meta list \<Rightarrow> bool" where
  "sorted_by_compare out =
     sorted_wrt (\<lambda>x y. case sortCompare x y of Inl e \<Rightarrow> False | Inr v \<Rightarrow> v \<le> 0) out"

text \<open>A candidate with a Java 8 style version and an executable path.\<close>

definition candidate :: "jsval \<Rightarrow> jsval \<Rightarrow> jsval \<Rightarrow> string \<Rightarrow> jvm_meta" where
  "candidate major update build execPath =
     \<lparr>meta_arch = Some 64,
      meta_version = Some \<lparr>ver_major = major, ver_minor = Undefined, ver_revision = Undefined,
                            ver_update = update, ver_build = build\<rparr>,
      meta_vendor = None, meta_valid = True, meta_execPath = Some execPath\<rparr>"

text \<open>
  The lines of a properties dump as the loop classifies them: which check a line is
  offered to, whether its parsing raises, and whether it passes its check.
\<close>

definition arch_line :: "string \<Rightarrow> bool" where
  "arch_line line = includes_str line ''sun.arch.data.model''"

definition version_line :: "string \<Rightarrow> bool" where
  "version_line line = (\<not> arch_line line \<and> includes_str line ''java.runtime.version'')"

definition vendor_line :: "string \<Rightarrow> bool" where
  "vendor_line line =
     (\<not> arch_line line \<and> \<not> version_line line \<and> includes_str line ''java.vendor '')"

definition line_throws :: "(string \<Rightarrow> bool) \<Rightarrow> string \<Rightarrow> bool" where
  "line_throws looseEqOne line =
     (if arch_line line \<or> vendor_line line then
        (case property_text line of Inl e \<Rightarrow> True | Inr t \<Rightarrow> False)
      else if version_line line then
        (case property_text line of
           Inl e \<Rightarrow> True
         | Inr verString \<Rightarrow>
             (case parseJavaRuntimeVersion looseEqOne verString of
                Inl e \<Rightarrow> True
              | Inr verOb \<Rightarrow> False))
      else False)"

definition arch_ok :: "string \<Rightarrow> bool" where
  "arch_ok line =
     (arch_line line \<and>
      (case property_text line of Inl e \<Rightarrow> False | Inr arch \<Rightarrow> parseInt arch = Num 64))"

definition version_ok :: "(string \<Rightarrow> bool) \<Rightarrow> string \<Rightarrow> bool" where
  "version_ok looseEqOne line =
     (version_line line \<and>
      (case property_text line of
         Inl e \<Rightarrow> False
       | Inr verString \<Rightarrow>
           (case parseJavaRuntimeVersion looseEqOne verString of
              Inl e \<Rightarrow> False
            | Inr verOb \<Rightarrow> js_seq (ver_major verOb) (Num 8) \<and> js_gt (ver_update verOb) (Num 52))))"

definition line_passes :: "(string \<Rightarrow> bool) \<Rightarrow> string \<Rightarrow> bool" where
  "line_passes looseEqOne line = (arch_ok line \<or> version_ok looseEqOne line)"





section \<open>Artifacts, trackers and the AssetGuard object (assetguard.js)\<close>

text \<open>Class \<open>Asset\<close> (and \<open>Library\<close>, which adds no field): a null hash is \<open>None\<close>.\<close>

record asset =
  asset_id :: string
  asset_hash :: "string option"
  asset_size :: int
  asset_from :: string
  asset_to :: string

text \<open>
  The only callback the launcher installs on a tracker is the closure of
  \<open>_enqueueOpenJDK\<close>, which unpacks the downloaded runtime; it is identified by the
  runtime directory and the archive name it closes over.
\<close>

datatype callback = OpenJDK_extract string string

text \<open>Class \<open>DLTracker\<close>.\<close>

record dltracker =
  dlqueue :: "asset list"
  dlsize :: int
  callback :: "callback option"

definition new_DLTracker :: "asset list \<Rightarrow> int \<Rightarrow> dltracker" where
  "new_DLTracker q sz = \<lparr>dlqueue = q, dlsize = sz, callback = None\<rparr>"

text \<open>The category identifiers: the tracker properties the constructor creates.\<close>

datatype category_id = Assets | Libraries | Files | Forge | Java

text \<open>
  What the object does to the outside, in order: the events it emits, the lines it
  logs, the requests it sends, the callbacks it applies and the unpack step it starts.
\<close>

datatype event =
    Emit_progress string jsval jsval
  | Emit_error string
  | Emit_complete string
  | Log_dlqueue
  | Log_size_mismatch string
  | Log_hashes_match string
  | Log_may_be_corrupted string
  | Log_item_failed category_id
  | Log_all_processed category_id
  | Http_get string
  | Callback_applied callback asset
  | Extract_pack_xz "string list" string

text \<open>
  The state of an \<open>AssetGuard\<close> object: the fields its constructor sets, together with
  the files on disk (path to content) and the trace of events so far.
\<close>

record assetguard =
  totaldlsize :: jsval
  progress :: int
  assets :: dltracker
  libraries :: dltracker
  files :: dltracker
  forge :: dltracker
  java :: dltracker
  extractQueue :: "string list"
  commonPath :: string
  javaexec :: string
  disk :: "string \<Rightarrow> string option"
  emitted :: "event list"

definition new_AssetGuard :: "string \<Rightarrow> string \<Rightarrow> (string \<Rightarrow> string option) \<Rightarrow> assetguard" where
  "new_AssetGuard common exe dsk =
     \<lparr>totaldlsize = Num 0, progress = 0,
      assets = new_DLTracker [] 0, libraries = new_DLTracker [] 0, files = new_DLTracker [] 0,
      forge = new_DLTracker [] 0, java = new_DLTracker [] 0,
      extractQueue = [], commonPath = common, javaexec = exe, disk = dsk, emitted = []\<rparr>"

text \<open>\<open>this[category_id]\<close> and \<open>self[category_id] = tracker\<close>.\<close>

fun tracker :: "assetguard \<Rightarrow> category_id \<Rightarrow> dltracker" where
  "tracker st Assets = assets st"
| "tracker st Libraries = libraries st"
| "tracker st Files = files st"
| "tracker st Forge = forge st"
| "tracker st Java = java st"

fun set_tracker :: "category_id \<Rightarrow> dltracker \<Rightarrow> assetguard \<Rightarrow> assetguard" where
  "set_tracker Assets t st = st\<lparr>assets := t\<rparr>"
| "set_tracker Libraries t st = st\<lparr>libraries := t\<rparr>"
| "set_tracker Files t st = st\<lparr>files := t\<rparr>"
| "set_tracker Forge t st = st\<lparr>forge := t\<rparr>"
| "set_tracker Java t st = st\<lparr>java := t\<rparr>"

definition emit :: "event \<Rightarrow> assetguard \<Rightarrow> assetguard" where
  "emit e st = st\<lparr>emitted := emitted st @ [e]\<rparr>"

text \<open>
  What a request answers: no response (a network error or a timeout), or a response
  with its status, its \<open>content-length\<close> header as \<open>parseInt\<close> reads it, and the
  chunks of its body.
\<close>

datatype transfer = Network_error | Response int jsval "string list"

text \<open>
  The environment of the object: \<open>process.platform\<close>, \<open>process.arch\<close>, the digest
  function of the crypto module (algorithm and data to bytes) and the network (URL to
  answer).
\<close>

record environment =
  env_platform :: string
  env_arch :: string
  env_digest :: "string \<Rightarrow> string \<Rightarrow> nat list"
  env_network :: "string \<Rightarrow> transfer"

section \<open>Hash validation (assetguard.js)\<close>

text \<open>\<open>digest('hex')\<close>: two lower-case hexadecimal digits for each byte.\<close>

definition hex_digit :: "nat \<Rightarrow> char" where
  "hex_digit n = ''0123456789abcdef'' ! (n mod 16)"

definition hex_of_bytes :: "nat list \<Rightarrow> string" where
  "hex_of_bytes bs = concat (map (\<lambda>b. [hex_digit (b div 16), hex_digit b]) bs)"

text \<open>\<open>AssetGuard._calculateHash(buf, algo)\<close>.\<close>

definition calculateHash :: "(string \<Rightarrow> string \<Rightarrow> nat list) \<Rightarrow> string \<Rightarrow> string \<Rightarrow> string" where
  "calculateHash dg buf algo = hex_of_bytes (dg algo buf)"

text \<open>\<open>AssetGuard._validateLocal(filePath, algo, hash)\<close>.\<close>

definition validateLocal ::
  "(string \<Rightarrow> string \<Rightarrow> nat list) \<Rightarrow> (string \<Rightarrow> string option) \<Rightarrow> string \<Rightarrow> string \<Rightarrow> string option \<Rightarrow> bool" where
  "validateLocal dg dsk filePath algo hash =
     (case dsk filePath of
        None \<Rightarrow> False
      | Some buf \<Rightarrow>
          (case hash of
             None \<Rightarrow> True
           | Some h \<Rightarrow> calculateHash dg buf algo = toLowerCase h))"

section \<open>Validation passes (assetguard.js)\<close>

text \<open>An object of the asset index: \<open>value.hash\<close> and \<open>value.size\<close>.\<close>

record index_object =
  obj_hash :: "string option"
  obj_size :: int

text \<open>
  The iteratee of \<open>_assetChainValidateAssets\<close> over the objects that remain, with
  the counter \<open>acc\<close>, the queue and its size so far. \<open>hash.substring\<close> raises a
  TypeError on an object without a hash; what was emitted before stays emitted.
\<close>

primrec validateAssets_loop ::
  "environment \<Rightarrow> string \<Rightarrow> nat \<Rightarrow> (string \<times> index_object) list \<Rightarrow> nat \<Rightarrow> asset list \<Rightarrow> int \<Rightarrow>
   assetguard \<Rightarrow> (js_error + asset list \<times> int) \<times> assetguard" where
  "validateAssets_loop env objectPath totalCount [] counter assetDlQueue dlSize st =
     (Inr (assetDlQueue, dlSize), st)"
| "validateAssets_loop env objectPath totalCount (entry # objects) counter assetDlQueue dlSize st =
     (let key = fst entry; v = snd entry;
          st1 = emit (Emit_progress ''assets'' (Num (int (Suc counter))) (Num (int totalCount))) st
      in case obj_hash v of
           None \<Rightarrow> (Inl TypeError, st1)
         | Some hash \<Rightarrow>
             (let assetName = path_join (env_platform env) [take 2 hash, hash];
                  urlName = take 2 hash @ ''/'' @ hash;
                  ast = \<lparr>asset_id = key, asset_hash = Some hash, asset_size = obj_size v,
                         asset_from = ''https://resources.download.minecraft.net/'' @ urlName,
                         asset_to = path_join (env_platform env) [objectPath, assetName]\<rparr>
              in if \<not> validateLocal (env_digest env) (disk st1) (asset_to ast) ''sha1'' (asset_hash ast)
                 then validateAssets_loop env objectPath totalCount objects (Suc counter)
                        (assetDlQueue @ [ast]) (dlSize + asset_size ast) st1
                 else validateAssets_loop env objectPath totalCount objects (Suc counter)
                        assetDlQueue dlSize st1))"

text \<open>
  \<open>AssetGuard._assetChainValidateAssets(versionData, indexData)\<close>, with
  \<open>indexData.objects\<close> as the list of its entries in iteration order. The tracker is
  replaced only when the iteration ends without an exception.
\<close>

definition validateAssets ::
  "environment \<Rightarrow> (string \<times> index_object) list \<Rightarrow> assetguard \<Rightarrow> (js_error + unit) \<times> assetguard" where
  "validateAssets env objects st =
     (let localPath = path_join (env_platform env) [commonPath st, ''assets''];
          objectPath = path_join (env_platform env) [localPath, ''objects'']
      in case validateAssets_loop env objectPath (length objects) objects 0 [] 0 st of
           (Inl e, st') \<Rightarrow> (Inl e, st')
         | (Inr (assetDlQueue, dlSize), st') \<Rightarrow>
             (Inr (), st'\<lparr>assets := new_DLTracker assetDlQueue dlSize\<rparr>))"

text \<open>A library of the version manifest and its download descriptors.\<close>

record artifact =
  art_sha1 :: "string option"
  art_size :: int
  art_url :: string
  art_path :: "string option"

record downloads =
  dl_artifact :: "artifact option"
  dl_classifiers :: "(string \<times> artifact) list option"

record library_desc =
  lib_name :: string
  lib_rules :: "rule list option"
  lib_natives :: "(string \<times> string) list option"
  lib_downloads :: "downloads option"
  lib_exclude :: "string list option"

text \<open>
  \<open>s.replace(pattern, replacement)\<close> for a string pattern: the first occurrence is
  replaced. The replacements the launcher passes (\<open>process.arch\<close> without its
  \<open>x\<close>, and the empty string) contain no \<open>$\<close> pattern.
\<close>

definition replace_first :: "string \<Rightarrow> string \<Rightarrow> string \<Rightarrow> string" where
  "replace_first pattern replacement s =
     (case indexOf s pattern of
        None \<Rightarrow> s
      | Some i \<Rightarrow> take i s @ replacement @ drop (i + length pattern) s)"

text \<open>
  The artifact a library resolves to: \<open>lib.downloads.artifact\<close> without natives,
  otherwise the classifier named by \<open>lib.natives[os]\<close> with \<open>${arch}\<close> replaced.
  Reading a property of a missing object raises a TypeError.
\<close>

definition resolve_artifact :: "environment \<Rightarrow> library_desc \<Rightarrow> js_error + artifact" where
  "resolve_artifact env lib =
     (case lib_downloads lib of
        None \<Rightarrow> Inl TypeError
      | Some d \<Rightarrow>
          (case lib_natives lib of
             None \<Rightarrow> (case dl_artifact d of None \<Rightarrow> Inl TypeError | Some a \<Rightarrow> Inr a)
           | Some natives \<Rightarrow>
               (case map_of natives (mojangFriendlyOS (env_platform env)) of
                  None \<Rightarrow> Inl TypeError
                | Some classifier \<Rightarrow>
                    (case dl_classifiers d of
                       None \<Rightarrow> Inl TypeError
                     | Some classifiers \<Rightarrow>
                         (case map_of classifiers
                                 (replace_first ''${arch}'' (replace_first ''x'' [] (env_arch env)) classifier) of
                            None \<Rightarrow> Inl TypeError
                          | Some a \<Rightarrow> Inr a)))))"

text \<open>The iteratee of \<open>validateLibraries\<close> over the libraries that remain.\<close>

primrec validateLibraries_loop ::
  "environment \<Rightarrow> string \<Rightarrow> library_desc list \<Rightarrow> asset list \<Rightarrow> int \<Rightarrow> assetguard \<Rightarrow>
   js_error + asset list \<times> int" where
  "validateLibraries_loop env libPath [] libDlQueue dlSize st = Inr (libDlQueue, dlSize)"
| "validateLibraries_loop env libPath (lib # libArr) libDlQueue dlSize st =
     (if validateRules (env_platform env) (lib_rules lib) (lib_natives lib) then
        (case resolve_artifact env lib of
           Inl e \<Rightarrow> Inl e
         | Inr a \<Rightarrow>
             (case art_path a of
                None \<Rightarrow> Inl TypeError
              | Some p \<Rightarrow>
                  (let libItm = \<lparr>asset_id = lib_name lib, asset_hash = art_sha1 a,
                                  asset_size = art_size a, asset_from = art_url a,
                                  asset_to = path_join (env_platform env) [libPath, p]\<rparr>
                   in if \<not> validateLocal (env_digest env) (disk st) (asset_to libItm) ''sha1'' (asset_hash libItm)
                      then validateLibraries_loop env libPath libArr (libDlQueue @ [libItm])
                             (dlSize + asset_size libItm * 1) st
                      else validateLibraries_loop env libPath libArr libDlQueue dlSize st)))
      else validateLibraries_loop env libPath libArr libDlQueue dlSize st)"

text \<open>The version manifest: the parts the launcher reads.\<close>

record log_file =
  lf_id :: string
  lf_sha1 :: "string option"
  lf_size :: int
  lf_url :: string

record version_data =
  vd_id :: string
  vd_type :: string
  vd_assets :: string
  vd_libraries :: "library_desc list"
  vd_client :: "artifact option"
  vd_log_file :: "log_file option"

text \<open>\<open>AssetGuard.validateLibraries(versionData)\<close>.\<close>

definition validateLibraries ::
  "environment \<Rightarrow> version_data \<Rightarrow> assetguard \<Rightarrow> (js_error + unit) \<times> assetguard" where
  "validateLibraries env versionData st =
     (let libPath = path_join (env_platform env) [commonPath st, ''libraries'']
      in case validateLibraries_loop env libPath (vd_libraries versionData) [] 0 st of
           Inl e \<Rightarrow> (Inl e, st)
         | Inr (libDlQueue, dlSize) \<Rightarrow>
             (Inr (), st\<lparr>libraries := new_DLTracker libDlQueue dlSize\<rparr>))"

text \<open>
  \<open>AssetGuard.validateClient(versionData, force)\<close>: the client jar is pushed onto
  the \<open>files\<close> queue when it is invalid or when \<open>force\<close> is set.
\<close>

definition validateClient ::
  "environment \<Rightarrow> version_data \<Rightarrow> bool \<Rightarrow> assetguard \<Rightarrow> (js_error + unit) \<times> assetguard" where
  "validateClient env versionData force st =
     (case vd_client versionData of
        None \<Rightarrow> (Inl TypeError, st)
      | Some clientData \<Rightarrow>
          (let version = vd_id versionData;
               targetPath = path_join (env_platform env) [commonPath st, ''versions'', version];
               targetFile = version @ ''.jar'';
               client = \<lparr>asset_id = version @ '' client'', asset_hash = art_sha1 clientData,
                         asset_size = art_size clientData, asset_from = art_url clientData,
                         asset_to = path_join (env_platform env) [targetPath, targetFile]\<rparr>
           in if \<not> validateLocal (env_digest env) (disk st) (asset_to client) ''sha1'' (asset_hash client) \<or> force
              then (Inr (), st\<lparr>files := (files st)\<lparr>dlqueue := dlqueue (files st) @ [client],
                                                      dlsize := dlsize (files st) + asset_size client * 1\<rparr>\<rparr>)
              else (Inr (), st)))"

text \<open>\<open>AssetGuard.validateLogConfig(versionData)\<close>.\<close>

definition validateLogConfig ::
  "environment \<Rightarrow> version_data \<Rightarrow> assetguard \<Rightarrow> (js_error + unit) \<times> assetguard" where
  "validateLogConfig env versionData st =
     (case vd_log_file versionData of
        None \<Rightarrow> (Inl TypeError, st)
      | Some file \<Rightarrow>
          (let targetPath = path_join (env_platform env) [commonPath st, ''assets'', ''log_configs''];
               logConfig = \<lparr>asset_id = lf_id file, asset_hash = lf_sha1 file, asset_size = lf_size file,
                            asset_from = lf_url file,
                            asset_to = path_join (env_platform env) [targetPath, lf_id file]\<rparr>
           in if \<not> validateLocal (env_digest env) (disk st) (asset_to logConfig) ''sha1'' (asset_hash logConfig)
              then (Inr (), st\<lparr>files := (files st)\<lparr>dlqueue := dlqueue (files st) @ [logConfig],
                                                      dlsize := dlsize (files st) + asset_size logConfig * 1\<rparr>\<rparr>)
              else (Inr (), st)))"

text \<open>\<open>AssetGuard.validateMiscellaneous(versionData)\<close>: both calls, \<open>force\<close> left at its default.\<close>

definition validateMiscellaneous ::
  "environment \<Rightarrow> version_data \<Rightarrow> assetguard \<Rightarrow> (js_error + unit) \<times> assetguard" where
  "validateMiscellaneous env versionData st =
     (case validateClient env versionData False st of
        (Inl e, st') \<Rightarrow> (Inl e, st')
      | (Inr u, st') \<Rightarrow> validateLogConfig env versionData st')"

text \<open>
  A sequence of validation passes on one object, each over its own index or manifest;
  a pass that raises leaves the object as it was when the exception occurred.
\<close>

datatype validation_pass =
    Validate_assets "(string \<times> index_object) list"
  | Validate_libraries version_data
  | Validate_miscellaneous version_data

fun run_pass :: "environment \<Rightarrow> assetguard \<Rightarrow> validation_pass \<Rightarrow> assetguard" where
  "run_pass env st (Validate_assets objects) = snd (validateAssets env objects st)"
| "run_pass env st (Validate_libraries versionData) = snd (validateLibraries env versionData st)"
| "run_pass env st (Validate_miscellaneous versionData) = snd (validateMiscellaneous env versionData st)"

definition run_passes :: "environment \<Rightarrow> assetguard \<Rightarrow> validation_pass list \<Rightarrow> assetguard" where
  "run_passes env st passes = foldl (run_pass env) st passes"

text \<open>No queued artifact of the three validated categories is locally valid.\<close>

definition queues_invalid :: "environment \<Rightarrow> assetguard \<Rightarrow> bool" where
  "queues_invalid env st =
     list_all (\<lambda>a. \<not> validateLocal (env_digest env) (disk st) (asset_to a) ''sha1'' (asset_hash a))
       (dlqueue (assets st) @ dlqueue (libraries st) @ dlqueue (files st))"

text \<open>An artifact that local validation rejects on the disk of a state.\<close>

definition invalid_here :: "environment \<Rightarrow> assetguard \<Rightarrow> asset \<Rightarrow> bool" where
  "invalid_here env st a =
     (\<not> validateLocal (env_digest env) (disk st) (asset_to a) ''sha1'' (asset_hash a))"

text \<open>
  A small installation used to run the definitions: a digest that answers \<open>abcd\<close> on
  one content, a disk with one asset and one library, an asset index and a manifest.
\<close>

definition example_env :: environment where
  "example_env = \<lparr>env_platform = ''linux'', env_arch = ''x64'',
     env_digest = (\<lambda>algo buf. if buf = ''good'' then [171, 205] else [0, 1]),
     env_network = (\<lambda>url. Network_error)\<rparr>"

definition example_disk :: "string \<Rightarrow> string option" where
  "example_disk p =
     (if p = ''/common/assets/objects/ab/abcd'' then Some ''good''
      else if p = ''/common/libraries/foo/foo-1.0.jar'' then Some ''anything''
      else None)"

definition example_index :: "(string \<times> index_object) list" where
  "example_index =
     [(''icons/icon.png'', \<lparr>obj_hash = Some ''abcd'', obj_size = 4\<rparr>),
      (''lang/en.lang'', \<lparr>obj_hash = Some ''0001'', obj_size = 7\<rparr>)]"

definition example_asset :: asset where
  "example_asset = \<lparr>asset_id = ''icons/icon.png'', asset_hash = Some ''abcd'', asset_size = 4,
     asset_from = ''https://resources.download.minecraft.net/ab/abcd'',
     asset_to = ''/common/assets/objects/ab/abcd''\<rparr>"

definition example_version_data :: version_data where
  "example_version_data =
     \<lparr>vd_id = ''1.8.9'', vd_type = ''release'', vd_assets = ''1.8'',
      vd_libraries =
        [\<lparr>lib_name = ''com.example:foo:1.0'', lib_rules = None, lib_natives = None,
          lib_downloads = Some \<lparr>dl_artifact = Some \<lparr>art_sha1 = None, art_size = 10,
              art_url = ''https://libraries.example/foo/foo-1.0.jar'',
              art_path = Some ''foo/foo-1.0.jar''\<rparr>, dl_classifiers = None\<rparr>,
          lib_exclude = None\<rparr>],
      vd_client = None, vd_log_file = None\<rparr>"

definition example_library :: asset where
  "example_library = \<lparr>asset_id = ''com.example:foo:1.0'', asset_hash = None, asset_size = 10,
     asset_from = ''https://libraries.example/foo/foo-1.0.jar'',
     asset_to = ''/common/libraries/foo/foo-1.0.jar''\<rparr>"

section \<open>The download orchestrator (assetguard.js)\<close>

text \<open>Arithmetic and comparison on numbers that may be \<open>NaN\<close>.\<close>

fun js_add :: "jsval \<Rightarrow> jsval \<Rightarrow> jsval" where
  "js_add (Num a) (Num b) = Num (a + b)"
| "js_add _ _ = NaN"

fun js_sub :: "jsval \<Rightarrow> jsval \<Rightarrow> jsval" where
  "js_sub (Num a) (Num b) = Num (a - b)"
| "js_sub _ _ = NaN"

fun js_ge :: "jsval \<Rightarrow> jsval \<Rightarrow> bool" where
  "js_ge (Num a) (Num b) = (a \<ge> b)"
| "js_ge _ _ = False"

text \<open>How the promise of one artifact settles.\<close>

datatype settled = Resolved | Rejected

text \<open>
  The \<open>data\<close> handler of the response stream, chunk by chunk: the progress grows by
  the chunk's length and a progress event is emitted.
\<close>

primrec stream_chunks :: "string list \<Rightarrow> assetguard \<Rightarrow> assetguard" where
  "stream_chunks [] st = st"
| "stream_chunks (chunk # chunks) st =
     stream_chunks chunks
       (emit (Emit_progress ''download'' (Num (progress st + int (length chunk))) (totaldlsize st))
          (st\<lparr>progress := progress st + int (length chunk)\<rparr>))"

text \<open>
  The body of the promise \<open>startAsyncProcess\<close> creates for one artifact. The request
  library rejects when there is no response or when the status is outside 200 to 299;
  the \<open>.catch\<close> handler then emits the error event, and the read of \<open>req.data\<close> of
  the missing response raises a TypeError, which the \<open>catch\<close> block stores in
  \<open>err\<close> before it rejects. With status 200 the body is written to the destination,
  the tracker's callback is applied, and the hash is checked when the reported length
  was not the expected size; the callback is taken to return. With another status of
  the 200 range, the log line reads the undeclared variable \<open>resp\<close>: a
  ReferenceError, stored and rejected in the same way, before the progress is touched;
  the \<open>data\<close> handler is attached by then, so the body still flows and every chunk
  adds to the progress and emits its progress event, after the rejection.
  \<open>asset.type\<close> is no field of an artifact, so the hash algorithm is always
  \<open>sha1\<close>. The result is how the promise settles, the value of \<open>err\<close>, and the
  new state.
\<close>

definition download_asset ::
  "environment \<Rightarrow> dltracker \<Rightarrow> asset \<Rightarrow> assetguard \<Rightarrow> (settled \<times> js_error option) \<times> assetguard" where
  "download_asset env dlTracker a st =
     (let st0 = emit (Http_get (asset_from a)) st
      in case env_network env (asset_from a) of
           Network_error \<Rightarrow> ((Rejected, Some TypeError), emit (Emit_error ''download'') st0)
         | Response status contentLength chunks \<Rightarrow>
             if \<not> (200 \<le> status \<and> status < 300) then
               ((Rejected, Some TypeError), emit (Emit_error ''download'') st0)
             else if status = 200 then
               (let doHashCheck = (\<not> js_seq contentLength (Num (asset_size a)));
                    st1 = (if doHashCheck
                           then (emit (Log_size_mismatch (asset_id a)) st0)
                                  \<lparr>totaldlsize :=
                                     js_add (js_sub (totaldlsize st0) (Num (asset_size a))) contentLength\<rparr>
                           else st0);
                    st2 = stream_chunks chunks st1;
                    st3 = st2\<lparr>disk := (disk st2)(asset_to a \<mapsto> concat chunks)\<rparr>;
                    st4 = (case callback dlTracker of
                             None \<Rightarrow> st3
                           | Some cb \<Rightarrow> emit (Callback_applied cb a) st3);
                    st5 = (if doHashCheck then
                             (if validateLocal (env_digest env) (disk st4) (asset_to a) ''sha1'' (asset_hash a)
                              then emit (Log_hashes_match (asset_id a)) st4
                              else emit (Log_may_be_corrupted (asset_id a)) st4)
                           else st4)
                in ((Resolved, None), st5))
             else ((Rejected, Some ReferenceError), stream_chunks chunks st0))"

text \<open>
  The \<open>for\<close> loop of \<open>startAsyncProcess\<close> over the artifacts that remain, with the
  variable \<open>err\<close>. Awaiting a rejected promise throws its reason, here the value
  \<open>undefined\<close>, out of the loop and out of \<open>startAsyncProcess\<close>.
\<close>

primrec download_queue ::
  "environment \<Rightarrow> dltracker \<Rightarrow> asset list \<Rightarrow> js_error option \<Rightarrow> assetguard \<Rightarrow>
   (js_error + js_error option) \<times> assetguard" where
  "download_queue env dlTracker [] err st = (Inr err, st)"
| "download_queue env dlTracker (a # dlQueue) err st =
     (case download_asset env dlTracker a st of
        ((Rejected, ex), st') \<Rightarrow> (Inl Thrown_undefined, st')
      | ((Resolved, ex), st') \<Rightarrow> download_queue env dlTracker dlQueue err st')"

text \<open>
  \<open>AssetGuard.startAsyncProcess(identifier)\<close>. The unpack step of the extract queue
  is taken to finish at once, so its completion event follows it directly; no code of
  the launcher adds to that queue, which the constructor leaves empty.
\<close>

definition startAsyncProcess ::
  "environment \<Rightarrow> category_id \<Rightarrow> assetguard \<Rightarrow> (js_error + bool) \<times> assetguard" where
  "startAsyncProcess env ident st =
     (let dlTracker = tracker st ident;
          dlQueue = dlqueue dlTracker
      in if dlQueue \<noteq> [] then
           (case download_queue env dlTracker dlQueue None (emit Log_dlqueue st) of
              (Inl e, st') \<Rightarrow> (Inl e, st')
            | (Inr err, st1) \<Rightarrow>
                (let st2 = (case err of
                              Some ex \<Rightarrow> emit (Log_item_failed ident) st1
                            | None \<Rightarrow> emit (Log_all_processed ident) st1);
                     st3 = set_tracker ident (new_DLTracker [] 0) st2;
                     st4 = (if js_ge (Num (progress st3)) (totaldlsize st3) then
                              (if extractQueue st3 \<noteq> [] then
                                 emit (Emit_complete ''download'')
                                   ((emit (Extract_pack_xz (extractQueue st3) (javaexec st3))
                                       (emit (Emit_progress ''extract'' (Num 1) (Num 1)) st3))
                                      \<lparr>extractQueue := []\<rparr>)
                               else emit (Emit_complete ''download'') st3)
                            else st3)
                 in (Inr True, st4)))
         else (Inr False, st))"

text \<open>The first loop of \<open>processDlQueues\<close>: the expected total.\<close>

primrec sum_dlsize :: "(category_id \<times> nat) list \<Rightarrow> assetguard \<Rightarrow> assetguard" where
  "sum_dlsize [] st = st"
| "sum_dlsize (iden # identifiers) st =
     sum_dlsize identifiers
       (st\<lparr>totaldlsize := js_add (totaldlsize st) (Num (dlsize (tracker st (fst iden))))\<rparr>)"

text \<open>The second loop: each category in turn, with the flag \<open>shouldFire\<close>.\<close>

primrec process_loop ::
  "environment \<Rightarrow> (category_id \<times> nat) list \<Rightarrow> bool \<Rightarrow> assetguard \<Rightarrow> (js_error + bool) \<times> assetguard" where
  "process_loop env [] shouldFire st = (Inr shouldFire, st)"
| "process_loop env (iden # identifiers) shouldFire st =
     (case startAsyncProcess env (fst iden) st of
        (Inl e, st') \<Rightarrow> (Inl e, st')
      | (Inr r, st') \<Rightarrow> process_loop env identifiers (if r then False else shouldFire) st')"

text \<open>The events a run added, and how many of them are the aggregate completion.\<close>

definition new_events :: "assetguard \<Rightarrow> assetguard \<Rightarrow> event list" where
  "new_events st st' = drop (length (emitted st)) (emitted st')"

definition completions :: "event list \<Rightarrow> nat" where
  "completions evs = length (filter (\<lambda>e. e = Emit_complete ''download'') evs)"

text \<open>
  How the promise of \<open>processDlQueues\<close> ends. Its executor never calls \<open>reject\<close>;
  \<open>resolve\<close> is called by the listener registered with \<open>once('complete', ...)\<close>,
  at the first \<open>complete\<close> event of the object, whatever its category. An
  exception of \<open>startAsyncProcess\<close> ends the executor, an async function whose own
  promise nobody reads, and is lost. So the promise resolves when the run emits a
  completion. When the run emits none but has applied a tracker callback, the promise
  waits for the completion that this callback emits after its unpacking, which is not
  part of the trace. In every other case the promise never settles.
\<close>

datatype promise_end = Resolves | Awaits_callback | Never_settles

fun is_complete :: "event \<Rightarrow> bool" where
  "is_complete (Emit_complete c) = True"
| "is_complete _ = False"

fun is_callback :: "event \<Rightarrow> bool" where
  "is_callback (Callback_applied cb a) = True"
| "is_callback _ = False"

text \<open>
  \<open>AssetGuard.processDlQueues(identifiers)\<close>, each identifier with its (unused)
  limit: how its promise ends, and the state the run leaves.
\<close>

definition processDlQueues ::
  "environment \<Rightarrow> (category_id \<times> nat) list \<Rightarrow> assetguard \<Rightarrow> promise_end \<times> assetguard" where
  "processDlQueues env identifiers st =
     (let st1 = sum_dlsize identifiers (st\<lparr>totaldlsize := Num 0, progress := 0\<rparr>);
          st2 = (case process_loop env identifiers True st1 of
                   (Inl e, st') \<Rightarrow> st'
                 | (Inr shouldFire, st') \<Rightarrow>
                     if shouldFire then emit (Emit_complete ''download'') st' else st');
          evs = new_events st1 st2
      in (if list_ex is_complete evs then Resolves
          else if list_ex is_callback evs then Awaits_callback
          else Never_settles,
          st2))"

text \<open>The progress events of a body, from a progress value and a total.\<close>

primrec progress_events :: "int \<Rightarrow> jsval \<Rightarrow> string list \<Rightarrow> event list" where
  "progress_events p t [] = []"
| "progress_events p t (chunk # chunks) =
     Emit_progress ''download'' (Num (p + int (length chunk))) t
       # progress_events (p + int (length chunk)) t chunks"

text \<open>
  The parts of the trace of one transfer with status 200: whether the reported length
  differs from the expected size, the total after the adjustment that follows, whether
  the written file passes the hash check, and the events in order.
\<close>

definition size_mismatch :: "jsval \<Rightarrow> asset \<Rightarrow> bool" where
  "size_mismatch contentLength a = (\<not> js_seq contentLength (Num (asset_size a)))"

definition adjusted_total :: "jsval \<Rightarrow> asset \<Rightarrow> jsval \<Rightarrow> jsval" where
  "adjusted_total contentLength a t =
     (if size_mismatch contentLength a then js_add (js_sub t (Num (asset_size a))) contentLength else t)"

definition written_ok :: "environment \<Rightarrow> asset \<Rightarrow> string list \<Rightarrow> bool" where
  "written_ok env a chunks =
     (case asset_hash a of
        None \<Rightarrow> True
      | Some h \<Rightarrow> calculateHash (env_digest env) (concat chunks) ''sha1'' = toLowerCase h)"

definition transfer_events ::
  "environment \<Rightarrow> dltracker \<Rightarrow> asset \<Rightarrow> jsval \<Rightarrow> string list \<Rightarrow> int \<Rightarrow> jsval \<Rightarrow> event list" where
  "transfer_events env dlTracker a contentLength chunks p t =
     [Http_get (asset_from a)]
     @ (if size_mismatch contentLength a then [Log_size_mismatch (asset_id a)] else [])
     @ progress_events p (adjusted_total contentLength a t) chunks
     @ (case callback dlTracker of None \<Rightarrow> [] | Some cb \<Rightarrow> [Callback_applied cb a])
     @ (if size_mismatch contentLength a
        then [if written_ok env a chunks then Log_hashes_match (asset_id a)
              else Log_may_be_corrupted (asset_id a)]
        else [])"

text \<open>
  A transfer that goes well: status 200, a numeric \<open>content-length\<close>, and a body of
  exactly that many bytes. A tracker is ready when its size is the sum of the sizes
  of its artifacts, and each artifact has a positive size and a transfer that goes
  well.
\<close>

definition clean_transfer :: "environment \<Rightarrow> asset \<Rightarrow> bool" where
  "clean_transfer env a =
     (case env_network env (asset_from a) of
        Network_error \<Rightarrow> False
      | Response status contentLength chunks \<Rightarrow>
          status = 200 \<and> contentLength = Num (int (length (concat chunks))))"

definition tracker_ready :: "environment \<Rightarrow> dltracker \<Rightarrow> bool" where
  "tracker_ready env t =
     (dlsize t = sum_list (map asset_size (dlqueue t))
      \<and> list_all (\<lambda>a. clean_transfer env a \<and> 0 < asset_size a) (dlqueue t))"

definition all_empty :: "(category_id \<times> nat) list \<Rightarrow> assetguard \<Rightarrow> bool" where
  "all_empty identifiers st = list_all (\<lambda>iden. dlqueue (tracker st (fst iden)) = []) identifiers"

text \<open>The expected total of a run: the sum of the sizes of the named trackers.\<close>

definition expected_total :: "(category_id \<times> nat) list \<Rightarrow> assetguard \<Rightarrow> int" where
  "expected_total identifiers st = sum_list (map (\<lambda>iden. dlsize (tracker st (fst iden))) identifiers)"

text \<open>
  The events that end a run: the unpack step of a non-empty extract queue, then the
  aggregate completion.
\<close>

definition closing_events :: "assetguard \<Rightarrow> event list" where
  "closing_events st =
     (if extractQueue st \<noteq> []
      then [Emit_progress ''extract'' (Num 1) (Num 1), Extract_pack_xz (extractQueue st) (javaexec st)]
      else [])
     @ [Emit_complete ''download'']"

text \<open>
  A step that downloads \<open>d\<close> expected bytes without completing anything: the total
  stays a number, the distance between total and progress shrinks by \<open>d\<close>, no
  tracker, extract queue or executable changes, and no completion is emitted.
\<close>

definition quiet_step :: "int \<Rightarrow> assetguard \<Rightarrow> assetguard \<Rightarrow> bool" where
  "quiet_step d st st' =
     ((\<exists>g. totaldlsize st = Num (progress st + g) \<and> totaldlsize st' = Num (progress st' + (g - d)))
      \<and> assets st' = assets st \<and> libraries st' = libraries st \<and> files st' = files st
      \<and> forge st' = forge st \<and> java st' = java st
      \<and> extractQueue st' = extractQueue st \<and> javaexec st' = javaexec st
      \<and> (\<exists>evs. emitted st' = emitted st @ evs \<and> Emit_complete ''download'' \<notin> set evs))"

text \<open>
  A small download scenario: an asset of 100 bytes, a library of 50 bytes, a file
  whose length header differs from its expected size, an empty file, a file sent
  without a length header, and a host that does not answer.
\<close>

definition example_network :: "string \<Rightarrow> transfer" where
  "example_network url =
     (if url = ''https://host/asset'' then Response 200 (Num 100) [replicate 60 CHR ''a'', replicate 40 CHR ''a'']
      else if url = ''https://host/library'' then Response 200 (Num 50) [replicate 50 CHR ''b'']
      else if url = ''https://host/resized'' then Response 200 (Num 4) [''good'']
      else if url = ''https://host/empty'' then Response 200 (Num 0) []
      else if url = ''https://host/unsized'' then Response 200 NaN [replicate 100 CHR ''c'']
      else Network_error)"

definition example_download_env :: environment where
  "example_download_env = \<lparr>env_platform = ''linux'', env_arch = ''x64'',
     env_digest = (\<lambda>algo buf. if buf = ''good'' then [171, 205] else [0, 1]),
     env_network = example_network\<rparr>"

definition example_artifact :: "string \<Rightarrow> string option \<Rightarrow> int \<Rightarrow> asset" where
  "example_artifact name hash n =
     \<lparr>asset_id = name, asset_hash = hash, asset_size = n,
      asset_from = ''https://host/'' @ name, asset_to = ''/common/'' @ name\<rparr>"

definition example_guard :: "asset list \<Rightarrow> asset list \<Rightarrow> assetguard" where
  "example_guard as ls =
     (new_AssetGuard ''/common'' ''java'' (\<lambda>p. None))
       \<lparr>assets := new_DLTracker as (sum_list (map asset_size as)),
        libraries := new_DLTracker ls (sum_list (map asset_size ls))\<rparr>"

section \<open>The launch composer (processbuilder.js)\<close>





















section \<open>Library rules: results\<close>

lemma validateRules_loop_find:
  "validateRules_loop opSys rs =
     (case find deciding_rule rs of None \<Rightarrow> True | Some r \<Rightarrow> rule_verdict opSys r)"
  by (induction rs) (auto simp: deciding_rule_def rule_verdict_def split: option.splits)

text \<open>
  C1 (as stated, refuted): with rules present, the claim lets the first rule that
  matches the current OS decide and allows when none matches. On Linux, the single
  rule "allow osx" matches nothing, so the claim includes the library; the code's
  first allow rule decides at once and excludes it.
\<close>

theorem C1_first_matching_counterexample:
  "spec_first_matching_rule_decides ''linux''
     [\<lparr>rule_action = Some ''allow'', rule_os = Some \<lparr>os_name = Some ''osx''\<rparr>\<rparr>] = True
   \<and> validateRules ''linux''
     (Some [\<lparr>rule_action = Some ''allow'', rule_os = Some \<lparr>os_name = Some ''osx''\<rparr>\<rparr>]) None
     = False"
  by (simp add: validateRules_def spec_rule_matches_def mojangFriendlyOS_def)

text \<open>
  C1 (amended): without rules and without natives the library is included; without
  rules and with natives it is included exactly when natives has an entry for the
  current OS name; with rules, the first rule that has an os property and an allow or
  disallow action decides, whatever OS it names (allow: included exactly when the
  named OS is the current one; disallow: exactly when it is not), and the library is
  included when there is no such rule.
\<close>

theorem C1_validateRules_three_valued:
  "validateRules opSys None None = True
   \<and> validateRules opSys None (Some n) = (mojangFriendlyOS opSys \<in> fst ` set n)
   \<and> validateRules opSys (Some rs) natives =
       (case find deciding_rule rs of None \<Rightarrow> True | Some r \<Rightarrow> rule_verdict opSys r)"
  by (simp add: validateRules_def validateRules_loop_find map_of_eq_None_iff)

theorem C1_validateRules_three_valued_witness:
  "validateRules ''linux'' None None = True
   \<and> validateRules ''linux'' None (Some [(''windows'', ''natives-windows'')]) = False
   \<and> validateRules ''darwin''
       (Some [\<lparr>rule_action = Some ''allow'', rule_os = None\<rparr>,
              \<lparr>rule_action = Some ''disallow'', rule_os = Some \<lparr>os_name = Some ''osx''\<rparr>\<rparr>])
       None = False"
  using C1_validateRules_three_valued [of "''linux''" "[(''windows'', ''natives-windows'')]"]
    C1_validateRules_three_valued [of "''darwin''" n
      "[\<lparr>rule_action = Some ''allow'', rule_os = None\<rparr>,
        \<lparr>rule_action = Some ''disallow'', rule_os = Some \<lparr>os_name = Some ''osx''\<rparr>\<rparr>]" None]
  by (simp add: deciding_rule_def rule_verdict_def mojangFriendlyOS_def)

section \<open>Path construction and recognition\<close>

lemma endsWith_append: "endsWith (xs @ t) t"
  by (simp add: endsWith_def)

lemma split_by_not_Nil: "split_by isSep s \<noteq> []"
  by (induction s) (auto split: list.splits)

lemma split_by_append_sep:
  "isSep c \<Longrightarrow> split_by isSep (xs @ c # ys) = split_by isSep xs @ split_by isSep ys"
proof (induction xs)
  case Nil
  then show ?case by simp
next
  case (Cons x xs)
  then show ?case
    using split_by_not_Nil [of isSep xs]
    by (cases "split_by isSep xs") auto
qed

lemma split_by_plain: "\<forall>c \<in> set s. \<not> isSep c \<Longrightarrow> split_by isSep s = [s]"
  by (induction s) auto

lemma join_with_snoc2:
  "join_with sep (xs @ [a, b]) = (if xs = [] then [] else join_with sep xs @ sep) @ a @ sep @ b"
  by (induction sep xs rule: join_with.induct) auto

lemma join_with_snoc2_ex: "\<exists>X. join_with sep (xs @ [a, b]) = X @ a @ sep @ b"
  by (simp add: join_with_snoc2)

lemma normalize_segment_plain:
  "plain_segment isSep s \<Longrightarrow> normalize_segment al res s = res @ [s]"
  by (simp add: normalize_segment_def plain_segment_def)

lemma normalizeString_two_plain:
  assumes "plain_segment isSep a" "plain_segment isSep b"
    and "split_by isSep path = S @ [a, b]"
  shows "\<exists>X. normalizeString al sep isSep path = X @ a @ sep @ b"
  using assms
  by (simp add: normalizeString_def normalize_segment_plain join_with_snoc2)

lemma split_by_plain_segment: "plain_segment isSep s \<Longrightarrow> split_by isSep s = [s]"
  by (simp add: split_by_plain plain_segment_def list_all_iff)

lemma split_by_two_plain:
  assumes "plain_segment isSep a" "plain_segment isSep b" "isSep c"
  shows "split_by isSep (a @ c # b) = [a, b]"
  using assms by (simp add: split_by_append_sep split_by_plain_segment)

lemma split_by_pre_two_plain:
  assumes "plain_segment isSep a" "plain_segment isSep b" "isSep c" "isSep d"
  shows "split_by isSep (R @ d # a @ c # b) = split_by isSep R @ [a, b]"
  using assms by (simp add: split_by_append_sep split_by_plain_segment)

lemma plain_bin: "plain_segment isPosixPathSeparator ''bin''" "plain_segment isPosixPathSeparator ''java''"
  "plain_segment isPathSeparator ''bin''" "plain_segment isPathSeparator ''javaw.exe''"
  by (simp_all add: plain_segment_def isPosixPathSeparator_def isPathSeparator_def backslash_def)

lemma posix_normalize_bin_java:
  assumes "path = ''bin/java'' \<or> (\<exists>R. path = R @ ''/bin/java'')"
  shows "\<exists>X. posix_normalize path = X @ ''bin/java''"
proof -
  have sp: "\<exists>S. split_by isPosixPathSeparator path = S @ [''bin'', ''java'']"
  proof -
    from assms consider "path = ''bin'' @ CHR ''/'' # ''java''"
      | R where "path = R @ CHR ''/'' # ''bin'' @ CHR ''/'' # ''java''"
      by auto
    then show ?thesis
    proof cases
      case 1
      have "split_by isPosixPathSeparator path = [] @ [''bin'', ''java'']"
        unfolding 1 by (simp only: split_by_two_plain [OF plain_bin(1,2)] isPosixPathSeparator_def append_Nil)
      then show ?thesis by blast
    next
      case 2
      have "split_by isPosixPathSeparator path = split_by isPosixPathSeparator R @ [''bin'', ''java'']"
        unfolding 2 by (rule split_by_pre_two_plain [OF plain_bin(1,2)]) (simp_all add: isPosixPathSeparator_def)
      then show ?thesis by blast
    qed
  qed
  then obtain S where S: "split_by isPosixPathSeparator path = S @ [''bin'', ''java'']" ..
  have ne: "path \<noteq> []" and lst: "last path \<noteq> CHR ''/''"
    using assms by auto
  obtain X where X: "normalizeString (hd path \<noteq> CHR ''/'') ''/'' isPosixPathSeparator path = X @ ''bin'' @ ''/'' @ ''java''"
    using normalizeString_two_plain [OF plain_bin(1,2) S] by blast
  show ?thesis
    using ne lst X by (auto simp: posix_normalize_def Let_def)
qed

lemma posix_join_bin_java:
  "\<exists>X. posix_join (args @ [''bin'', ''java'']) = X @ ''bin/java''"
proof -
  let ?parts = "filter (\<lambda>arg. arg \<noteq> []) args"
  have j: "join_with ''/'' (?parts @ [''bin'', ''java'']) = ''bin/java''
      \<or> (\<exists>R. join_with ''/'' (?parts @ [''bin'', ''java'']) = R @ ''/bin/java'')"
    by (simp add: join_with_snoc2)
  show ?thesis
    using posix_normalize_bin_java [OF j] by (simp add: posix_join_def)
qed

lemma posix_join_endsWith_bin_java: "endsWith (posix_join (args @ [''bin'', ''java''])) (posix_join [''bin'', ''java''])"
proof -
  obtain X where "posix_join (args @ [''bin'', ''java'']) = X @ ''bin/java''"
    using posix_join_bin_java by blast
  moreover have "posix_join [''bin'', ''java''] = ''bin/java''"
    by (simp add: posix_join_def posix_normalize_def normalizeString_def normalize_segment_def isPosixPathSeparator_def)
  ultimately show ?thesis by (simp add: endsWith_def)
qed



lemma dropWhile_nonsep_keeps:
  assumes "isPathSeparator s"
  shows "\<exists>R'. dropWhile (\<lambda>c. \<not> isPathSeparator c) (R @ s # sfx) = R' @ s # sfx"
proof (induction R)
  case Nil
  show ?case using assms by simp
next
  case (Cons x R)
  then show ?case by (cases "isPathSeparator x") (auto intro: exI [of _ "x # R"])
qed

lemma dropWhile_sep_keeps:
  assumes "isPathSeparator s" "sfx \<noteq> []" "\<not> isPathSeparator (hd sfx)"
  shows "dropWhile isPathSeparator (R @ s # sfx) = sfx
       \<or> (\<exists>R'. R' \<noteq> [] \<and> \<not> isPathSeparator (hd R') \<and> dropWhile isPathSeparator (R @ s # sfx) = R' @ s # sfx)"
proof (induction R)
  case Nil
  show ?case using assms by (cases sfx) auto
next
  case (Cons x R)
  show ?case
  proof (cases "isPathSeparator x")
    case True
    then show ?thesis using Cons by simp
  next
    case False
    then have "dropWhile isPathSeparator ((x # R) @ s # sfx) = (x # R) @ s # sfx" by simp
    then show ?thesis using False by (intro disjI2 exI [of _ "x # R"]) simp
  qed
qed


lemma exec_sfx_facts:
  "exec_sfx \<noteq> []" "\<not> isPathSeparator (hd exec_sfx)" "length exec_sfx = 13"
  "takeWhile (\<lambda>c. \<not> isPathSeparator c) exec_sfx = ''bin''"
  "dropWhile (\<lambda>c. \<not> isPathSeparator c) exec_sfx = backslash # ''javaw.exe''"
  "last exec_sfx = CHR ''e''"
  "\<exists>t. exec_sfx = CHR ''b'' # CHR ''i'' # t"
  by (simp_all add: exec_sfx_def isPathSeparator_def backslash_def)

lemma exec_sfx_hd: "c # t = exec_sfx \<Longrightarrow> c = CHR ''b''"
  by (auto simp: exec_sfx_def)

lemma exec_sfx_hd2: "c # d # t = exec_sfx \<Longrightarrow> d = CHR ''i''"
  by (auto simp: exec_sfx_def)

lemma not_sep_b: "\<not> isPathSeparator CHR ''b''" "\<not> isPathSeparator CHR '':''"
  by (simp_all add: isPathSeparator_def backslash_def)

lemma win32_root_exec:
  assumes good: "J = exec_sfx \<or> (\<exists>R s. isPathSeparator s \<and> J = R @ s # exec_sfx)"
    and notbad: "\<not> (\<exists>s1 s2. isPathSeparator s1 \<and> isPathSeparator s2 \<and> J = s1 # s2 # exec_sfx)"
  shows "\<exists>rest device ab. win32_root J = Inr (rest, device, ab) \<and>
          (rest = exec_sfx \<or> (\<exists>R s. isPathSeparator s \<and> rest = R @ s # exec_sfx)
           \<or> (\<exists>s D. isPathSeparator s \<and> rest = s # ''javaw.exe'' \<and> ab \<and> device = Some (D @ ''bin'')))"
proof -
  have len: "length J \<ge> 13" using good by (auto simp: exec_sfx_facts)
  then obtain c0 c1 r where J: "J = c0 # c1 # r"
    by (cases J; cases "tl J") auto
  show ?thesis
  proof (cases "isPathSeparator c0")
    case sep0: True
    then have "J \<noteq> exec_sfx" using J not_sep_b by (auto dest: exec_sfx_hd)
    then obtain R s where s: "isPathSeparator s" and JR: "J = R @ s # exec_sfx"
      using good by blast
    then have good2: "\<exists>R s. isPathSeparator s \<and> J = R @ s # exec_sfx" by blast
    show ?thesis
    proof (cases "isPathSeparator c1")
      case sep1: True
      have "R \<noteq> []" using JR J sep1 not_sep_b by (auto dest: exec_sfx_hd)
      moreover have "\<not> (\<exists>x. R = [x])" using JR J notbad sep0 sep1 by auto
      ultimately obtain R2 where R: "R = c0 # c1 # R2"
        using JR J by (cases R; cases "tl R") auto
      then have r: "r = R2 @ s # exec_sfx" using JR J by simp
      obtain R1 where r1: "dropWhile (\<lambda>c. \<not> isPathSeparator c) r = R1 @ s # exec_sfx"
        unfolding r using dropWhile_nonsep_keeps [OF s] by blast
      let ?first = "takeWhile (\<lambda>c. \<not> isPathSeparator c) r"
      show ?thesis
      proof (cases "?first = []")
        case True
        then have "win32_root J = Inr (J, None, True)"
          using J sep0 sep1 by (simp add: win32_root_def Let_def)
        then show ?thesis using good2 by blast
      next
        case first: False
        let ?r2 = "dropWhile isPathSeparator (R1 @ s # exec_sfx)"
        from dropWhile_sep_keeps [OF s exec_sfx_facts(1,2), of R1]
        consider (share_bin) "?r2 = exec_sfx"
          | (deeper) R' where "R' \<noteq> []" "\<not> isPathSeparator (hd R')" "?r2 = R' @ s # exec_sfx"
          by blast
        then show ?thesis
        proof cases
          case share_bin
          have "win32_root J = Inr (backslash # ''javaw.exe'',
                  Some (([backslash, backslash] @ ?first @ [backslash]) @ ''bin''), True)
                \<or> win32_root J = Inr (J, None, True)"
            using J sep0 sep1 first r1 share_bin exec_sfx_facts
            by (simp add: win32_root_def Let_def)
          moreover have "isPathSeparator backslash" by (simp add: isPathSeparator_def)
          ultimately show ?thesis using good2 by blast
        next
          case deeper
          obtain R3 where r3: "dropWhile (\<lambda>c. \<not> isPathSeparator c) (R' @ s # exec_sfx) = R3 @ s # exec_sfx"
            using dropWhile_nonsep_keeps [OF s] by blast
          have "(\<exists>d. win32_root J = Inr (R3 @ s # exec_sfx, d, True))
                \<or> win32_root J = Inr (J, None, True)"
            using J sep0 sep1 first r1 deeper r3
            by (simp add: win32_root_def Let_def)
          then show ?thesis using good2 s by blast
        qed
      qed
    next
      case nsep1: False
      have "win32_root J = Inr (c1 # r, None, True)"
        using J sep0 nsep1 by (simp add: win32_root_def)
      moreover have "c1 # r = exec_sfx \<or> (\<exists>R'. c1 # r = R' @ s # exec_sfx)"
        using JR J by (cases R) auto
      ultimately show ?thesis using s by blast
    qed
  next
    case nsep0: False
    show ?thesis
    proof (cases "isWindowsDeviceRoot c0 \<and> c1 = CHR '':''")
      case dev: True
      have c1: "\<not> isPathSeparator c1" using dev not_sep_b by simp
      have "J \<noteq> exec_sfx" using dev J by (auto dest: exec_sfx_hd2)
      then obtain R s where s: "isPathSeparator s" and JR: "J = R @ s # exec_sfx"
        using good by blast
      have "R \<noteq> []" using JR J nsep0 s by auto
      moreover have "\<not> (\<exists>x. R = [x])" using JR J c1 s by auto
      ultimately obtain R2 where R: "R = c0 # c1 # R2"
        using JR J by (cases R; cases "tl R") auto
      then have r: "r = R2 @ s # exec_sfx" using JR J by simp
      show ?thesis
      proof (cases R2)
        case Nil
        then have "win32_root J = Inr (exec_sfx, Some [c0, c1], True)"
          using J nsep0 dev r s by (simp add: win32_root_def)
        then show ?thesis by blast
      next
        case (Cons c2 R3)
        then have "win32_root J = Inr (R3 @ s # exec_sfx, Some [c0, c1], True)
            \<or> win32_root J = Inr ((c2 # R3) @ s # exec_sfx, Some [c0, c1], False)"
          using J nsep0 dev r by (simp add: win32_root_def)
        then show ?thesis using s by blast
      qed
    next
      case False
      then have "win32_root J = Inr (J, None, False)"
        using J nsep0 by (auto simp: win32_root_def)
      then show ?thesis using good by blast
    qed
  qed
qed


lemma exec_sfx_split: "exec_sfx = ''bin'' @ backslash # ''javaw.exe''"
  by (simp add: exec_sfx_def)

lemma normalizeString_exec:
  assumes "rest = exec_sfx \<or> (\<exists>R s. isPathSeparator s \<and> rest = R @ s # exec_sfx)"
  shows "\<exists>X. normalizeString al [backslash] isPathSeparator rest = X @ exec_sfx"
proof -
  have bs: "isPathSeparator backslash" by (simp add: isPathSeparator_def)
  have "\<exists>S. split_by isPathSeparator rest = S @ [''bin'', ''javaw.exe'']"
  proof -
    from assms consider "rest = exec_sfx"
      | R s where "isPathSeparator s" "rest = R @ s # exec_sfx"
      by blast
    then show ?thesis
    proof cases
      case 1
      have "split_by isPathSeparator rest = [] @ [''bin'', ''javaw.exe'']"
        unfolding 1 exec_sfx_split
        by (simp only: split_by_two_plain [OF plain_bin(3,4) bs] append_Nil)
      then show ?thesis by blast
    next
      case 2
      have "split_by isPathSeparator rest = split_by isPathSeparator R @ [''bin'', ''javaw.exe'']"
        unfolding 2 exec_sfx_split
        by (rule split_by_pre_two_plain [OF plain_bin(3,4) bs 2(1)])
      then show ?thesis by blast
    qed
  qed
  then obtain S where "split_by isPathSeparator rest = S @ [''bin'', ''javaw.exe'']" ..
  from normalizeString_two_plain [OF plain_bin(3,4) this, of al "[backslash]"]
  show ?thesis by (simp add: exec_sfx_def)
qed

lemma normalizeString_javaw:
  assumes "isPathSeparator s"
  shows "normalizeString False [backslash] isPathSeparator (s # ''javaw.exe'') = ''javaw.exe''"
proof -
  have "split_by isPathSeparator (s # ''javaw.exe'') = [[], ''javaw.exe'']"
    using assms split_by_plain_segment [OF plain_bin(4)] by simp
  then show ?thesis
    by (simp add: normalizeString_def normalize_segment_def)
qed

lemma win32_normalize_exec:
  assumes good: "J = exec_sfx \<or> (\<exists>R s. isPathSeparator s \<and> J = R @ s # exec_sfx)"
    and notbad: "\<not> (\<exists>s1 s2. isPathSeparator s1 \<and> isPathSeparator s2 \<and> J = s1 # s2 # exec_sfx)"
  shows "\<exists>X. win32_normalize J = X @ exec_sfx"
proof -
  have len: "length J \<ge> 13" using good by (auto simp: exec_sfx_facts)
  have lst: "last J = CHR ''e''" using good exec_sfx_facts(1,6) by auto
  then have nsep: "\<not> isPathSeparator (last J)"
    by (simp add: isPathSeparator_def backslash_def)
  from win32_root_exec [OF good notbad] obtain rest device ab where
    root: "win32_root J = Inr (rest, device, ab)" and
    shape: "rest = exec_sfx \<or> (\<exists>R s. isPathSeparator s \<and> rest = R @ s # exec_sfx)
           \<or> (\<exists>s D. isPathSeparator s \<and> rest = s # ''javaw.exe'' \<and> ab \<and> device = Some (D @ ''bin''))"
    by blast
  from shape consider
    (plain) "rest = exec_sfx \<or> (\<exists>R s. isPathSeparator s \<and> rest = R @ s # exec_sfx)"
    | (share) s D where "isPathSeparator s" "rest = s # ''javaw.exe''" "ab" "device = Some (D @ ''bin'')"
    by blast
  then show ?thesis
  proof cases
    case plain
    then have ne: "rest \<noteq> []" using exec_sfx_facts(1) by auto
    obtain X where X: "normalizeString (\<not> ab) [backslash] isPathSeparator rest = X @ exec_sfx"
      using normalizeString_exec [OF plain] by blast
    have t: "X @ exec_sfx \<noteq> []" using exec_sfx_facts(1) by simp
    have J0: "J \<noteq> []" "length J \<noteq> 1" using len by auto
    have "\<exists>P. win32_normalize J = P @ (X @ exec_sfx)"
      using J0 root ne X t nsep
      by (cases device; cases ab) (simp_all add: win32_normalize_def)
    then show ?thesis by (metis append.assoc)
  next
    case share
    have J0: "J \<noteq> []" "length J \<noteq> 1" using len by auto
    have "win32_normalize J = (D @ ''bin'') @ [backslash] @ ''javaw.exe''"
      using J0 root share nsep normalizeString_javaw [OF share(1)]
      by (simp add: win32_normalize_def)
    then show ?thesis by (simp add: exec_sfx_def)
  qed
qed

lemma win32_join_exec:
  "\<exists>X. win32_join [rootDir, ''bin'', ''javaw.exe''] = X @ exec_sfx"
proof (cases "rootDir = []")
  case True
  have "\<not> (\<exists>s1 s2. isPathSeparator s1 \<and> isPathSeparator s2 \<and> exec_sfx = s1 # s2 # exec_sfx)"
    by auto
  from win32_normalize_exec [OF disjI1 [OF refl] this]
  show ?thesis using True
    by (simp add: win32_join_def exec_sfx_def isPathSeparator_def backslash_def)
next
  case False
  let ?joined = "rootDir @ backslash # exec_sfx"
  have bs: "isPathSeparator backslash" by (simp add: isPathSeparator_def)
  have joined: "join_with [backslash] (filter (\<lambda>arg. arg \<noteq> []) [rootDir, ''bin'', ''javaw.exe'']) = ?joined"
    using False by (simp add: exec_sfx_def)
  let ?needs = "\<not> (isPathSeparator (hd rootDir) \<and> length rootDir > 2 \<and>
                      isPathSeparator (rootDir ! 1) \<and> \<not> isPathSeparator (rootDir ! 2))"
  let ?count = "length (takeWhile isPathSeparator ?joined)"
  let ?J = "if ?needs \<and> ?count \<ge> 2 then [backslash] @ drop ?count ?joined else ?joined"
  have eq: "win32_join [rootDir, ''bin'', ''javaw.exe''] = win32_normalize ?J"
    using False joined by (simp add: win32_join_def Let_def)
  have good: "?J = exec_sfx \<or> (\<exists>R s. isPathSeparator s \<and> ?J = R @ s # exec_sfx)"
  proof (cases "?needs \<and> ?count \<ge> 2")
    case True
    have "drop ?count ?joined = dropWhile isPathSeparator ?joined"
      by (simp add: dropWhile_eq_drop)
    with dropWhile_sep_keeps [OF bs exec_sfx_facts(1,2), of rootDir]
    have "drop ?count ?joined = exec_sfx \<or> (\<exists>R'. drop ?count ?joined = R' @ backslash # exec_sfx)"
      by auto
    then have "\<exists>R. [backslash] @ drop ?count ?joined = R @ backslash # exec_sfx"
      by (metis append_Cons append_Nil)
    then show ?thesis using True bs by auto
  next
    case False
    then show ?thesis using bs by auto
  qed
  have notbad: "\<not> (\<exists>s1 s2. isPathSeparator s1 \<and> isPathSeparator s2 \<and> ?J = s1 # s2 # exec_sfx)"
  proof
    assume "\<exists>s1 s2. isPathSeparator s1 \<and> isPathSeparator s2 \<and> ?J = s1 # s2 # exec_sfx"
    then obtain s1 s2 where s: "isPathSeparator s1" "isPathSeparator s2" and J: "?J = s1 # s2 # exec_sfx"
      by blast
    show False
    proof (cases "?needs \<and> ?count \<ge> 2")
      case True
      then have "drop ?count ?joined = s2 # exec_sfx" using J by simp
      then have "dropWhile isPathSeparator ?joined = s2 # exec_sfx"
        by (simp add: dropWhile_eq_drop)
      then show False using s(2) hd_dropWhile [of isPathSeparator ?joined] by simp
    next
      case nr: False
      with J have Jj: "?joined = s1 # s2 # exec_sfx" by metis
      then have "length ?joined = length (s1 # s2 # exec_sfx)" by simp
      then have "length rootDir = 1" by simp
      then obtain x where "rootDir = [x]" by (cases rootDir) auto
      then have root: "rootDir = [s1]" using Jj by simp
      have "?count \<ge> 2" unfolding Jj using s by simp
      then show False using nr root by simp
    qed
  qed
  from win32_normalize_exec [OF good notbad] show ?thesis using eq by simp
qed

lemma javaExecFromRoot_isJavaExecPath:
  assumes "platform = ''win32'' \<or> platform = ''darwin'' \<or> platform = ''linux''"
  shows "isJavaExecPath platform (javaExecFromRoot platform rootDir)"
proof -
  have w: "win32_join [''bin'', ''javaw.exe''] = exec_sfx"
    by (simp add: win32_join_def win32_normalize_def win32_root_def normalizeString_def
        normalize_segment_def isPathSeparator_def isWindowsDeviceRoot_def backslash_def exec_sfx_def)
  have p: "posix_join [''bin'', ''java''] = ''bin/java''"
    by (simp add: posix_join_def posix_normalize_def normalizeString_def normalize_segment_def
        isPosixPathSeparator_def)
  from assms consider "platform = ''win32''" | "platform = ''darwin''" | "platform = ''linux''"
    by blast
  then show ?thesis
  proof cases
    case 1
    obtain X where "win32_join [rootDir, ''bin'', ''javaw.exe''] = X @ exec_sfx"
      using win32_join_exec by blast
    then show ?thesis using 1 w
      by (simp add: isJavaExecPath_def javaExecFromRoot_def path_join_def endsWith_def)
  next
    case 2
    obtain X where "posix_join ([rootDir, ''Contents'', ''Home''] @ [''bin'', ''java'']) = X @ ''bin/java''"
      using posix_join_bin_java by blast
    then show ?thesis using 2 p
      by (simp add: isJavaExecPath_def javaExecFromRoot_def path_join_def endsWith_def)
  next
    case 3
    obtain X where "posix_join ([rootDir] @ [''bin'', ''java'']) = X @ ''bin/java''"
      using posix_join_bin_java by blast
    then show ?thesis using 3 p
      by (simp add: isJavaExecPath_def javaExecFromRoot_def path_join_def endsWith_def)
  qed
qed

text \<open>
  C10: on each supported platform (win32, darwin, linux) and for every root directory
  string, the executable path built by \<open>javaExecFromRoot\<close> passes the suffix
  check of \<open>isJavaExecPath\<close>.
\<close>

theorem C10_exec_path_roundtrip:
  "isJavaExecPath ''win32'' (javaExecFromRoot ''win32'' rootDir)
   \<and> isJavaExecPath ''darwin'' (javaExecFromRoot ''darwin'' rootDir)
   \<and> isJavaExecPath ''linux'' (javaExecFromRoot ''linux'' rootDir)"
  by (simp add: javaExecFromRoot_isJavaExecPath)

theorem C10_exec_path_roundtrip_witness:
  "isJavaExecPath ''win32'' (javaExecFromRoot ''win32'' ''C:/Program Files/Java/jre1.8.0_60'')
   \<and> isJavaExecPath ''darwin'' (javaExecFromRoot ''darwin'' ''/Library/Java/../Java/jdk8/'')
   \<and> isJavaExecPath ''linux'' (javaExecFromRoot ''linux'' [])"
  using C10_exec_path_roundtrip [of "''C:/Program Files/Java/jre1.8.0_60''"]
    C10_exec_path_roundtrip [of "''/Library/Java/../Java/jdk8/''"]
    C10_exec_path_roundtrip [of "[]"]
  by simp

section \<open>Candidate ordering\<close>

lemma js_cmp_facts:
  "js_gt x y \<Longrightarrow> \<not> js_seq x y" "js_gt x y \<Longrightarrow> \<not> js_seq y x" "js_gt x y \<Longrightarrow> \<not> js_gt y x"
  "js_seq x y \<Longrightarrow> js_seq y x" "js_seq x y \<Longrightarrow> js_lt x z \<Longrightarrow> js_lt y z"
  by (cases x; cases y; cases z; simp)+

lemma ranks_above_major:
  "js_gt ma mb \<Longrightarrow> ranks_above (candidate ma ua ba pa) (candidate mb ub bb pb)"
  by (simp add: ranks_above_def sortCompare_def candidate_def js_cmp_facts)

lemma ranks_above_update:
  "js_seq ma mb \<Longrightarrow> js_lt ma (Num 9) \<Longrightarrow> js_gt ua ub \<Longrightarrow>
   ranks_above (candidate ma ua ba pa) (candidate mb ub bb pb)"
  using js_cmp_facts(4,5) [of ma mb]
  by (simp add: ranks_above_def sortCompare_def candidate_def js_cmp_facts(1,2,3))

lemma ranks_above_build:
  "js_seq ma mb \<Longrightarrow> js_lt ma (Num 9) \<Longrightarrow> js_seq ua ub \<Longrightarrow> js_gt ba bb \<Longrightarrow>
   ranks_above (candidate ma ua ba pa) (candidate mb ub bb pb)"
  using js_cmp_facts(4,5) [of ma mb] js_cmp_facts(4) [of ua ub]
  by (simp add: ranks_above_def sortCompare_def candidate_def js_cmp_facts(1,2,3))

lemma ranks_above_jre:
  "js_seq ma mb \<Longrightarrow> js_lt ma (Num 9) \<Longrightarrow> js_seq ua ub \<Longrightarrow> js_seq ba bb \<Longrightarrow>
   \<not> includes_str (toLowerCase pa) ''jdk'' \<Longrightarrow> includes_str (toLowerCase pb) ''jdk'' \<Longrightarrow>
   ranks_above (candidate ma ua ba pa) (candidate mb ub bb pb)"
  using js_cmp_facts(4,5) [of ma mb] js_cmp_facts(4) [of ua ub] js_cmp_facts(4) [of ba bb]
  by (simp add: ranks_above_def sortCompare_def candidate_def jdk_tiebreak_def)

lemma ranks_above_position:
  assumes "sorted_by_compare out" "ranks_above a b"
    and "i < length out" "j < length out" "out ! i = a" "out ! j = b"
  shows "i < j"
proof (rule ccontr)
  assume "\<not> i < j"
  then consider "i = j" | "j < i" by linarith
  then show False
  proof cases
    case 1
    then have "a = b" using assms by simp
    then show False using assms(2) by (auto simp: ranks_above_def)
  next
    case 2
    then have "case sortCompare (out ! j) (out ! i) of Inl e \<Rightarrow> False | Inr v \<Rightarrow> v \<le> 0"
      using assms(1,3) by (simp add: sorted_by_compare_def sorted_wrt_iff_nth_less)
    then show False using assms(2,5,6) by (simp add: ranks_above_def)
  qed
qed

text \<open>
  C7 (amended): among candidates that carry a parsed version and an executable path,
  a higher major version ranks first; at equal major below 9, a higher update ranks
  first, and at equal update a higher build; when major, update and build are equal
  numbers, a candidate whose lower-cased path has no \<open>jdk\<close> ranks above one whose
  lower-cased path has it (the substring check ignores case). In particular
  \<open>{8, 60, 1}\<close> ranks above \<open>{8, 60, 0}\<close>, and update 60 above update 50
  whatever the builds, \<open>NaN\<close> included. Ranking above means first in every array
  ordered by the comparator.
\<close>

theorem C7_candidate_ordering:
  "(js_gt ma mb \<longrightarrow> ranks_above (candidate ma ua ba pa) (candidate mb ub bb pb))
   \<and> (js_seq ma mb \<and> js_lt ma (Num 9) \<and> js_gt ua ub \<longrightarrow>
        ranks_above (candidate ma ua ba pa) (candidate mb ub bb pb))
   \<and> (js_seq ma mb \<and> js_lt ma (Num 9) \<and> js_seq ua ub \<and> js_gt ba bb \<longrightarrow>
        ranks_above (candidate ma ua ba pa) (candidate mb ub bb pb))
   \<and> (js_seq ma mb \<and> js_lt ma (Num 9) \<and> js_seq ua ub \<and> js_seq ba bb
        \<and> \<not> includes_str (toLowerCase pa) ''jdk'' \<and> includes_str (toLowerCase pb) ''jdk'' \<longrightarrow>
        ranks_above (candidate ma ua ba pa) (candidate mb ub bb pb))
   \<and> ranks_above (candidate (Num 8) (Num 60) (Num 1) pa) (candidate (Num 8) (Num 60) (Num 0) pb)
   \<and> ranks_above (candidate (Num 8) (Num 60) ba pa) (candidate (Num 8) (Num 50) bb pb)
   \<and> (sorted_by_compare out \<and> ranks_above a b \<and> i < length out \<and> j < length out
        \<and> out ! i = a \<and> out ! j = b \<longrightarrow> i < j)"
  using ranks_above_major ranks_above_update ranks_above_build ranks_above_jre
    ranks_above_position [of out a b i j]
  by (auto intro!: ranks_above_build ranks_above_update)

text \<open>
  C7 (as stated, refuted): the path \<open>/usr/lib/jvm/JDK8/bin/java\<close> does not contain
  the substring \<open>jdk\<close>, yet at equal version it does not rank above a path that
  does: the comparator lower-cases both paths and returns 0. And two candidates whose
  identical version string has no numeric build (\<open>NaN\<close>) never reach the path
  check: the comparator answers 1, placing the JRE path after the JDK path.
\<close>

theorem C7_jdk_substring_counterexample:
  "\<not> includes_str ''/usr/lib/jvm/JDK8/bin/java'' ''jdk''
   \<and> includes_str ''/usr/lib/jvm/jdk8/bin/java'' ''jdk''
   \<and> sortCompare (candidate (Num 8) (Num 60) (Num 1) ''/usr/lib/jvm/JDK8/bin/java'')
        (candidate (Num 8) (Num 60) (Num 1) ''/usr/lib/jvm/jdk8/bin/java'') = Inr 0
   \<and> sortCompare (candidate (Num 8) (Num 292) NaN ''/usr/lib/jvm/jre8/bin/java'')
        (candidate (Num 8) (Num 292) NaN ''/usr/lib/jvm/jdk8/bin/java'') = Inr 1"
  by (simp add: sortCompare_def candidate_def jdk_tiebreak_def includes_str_def startsWith_def
      toLowerCase_def lower_char_def)



theorem C7_candidate_ordering_witness:
  "ranks_above (candidate (Num 11) (Num 0) (Num 9) ''/opt/jdk-11/bin/java'')
     (candidate (Num 8) (Num 60) (Num 1) ''/opt/jre8/bin/java'')
   \<and> ranks_above (candidate (Num 8) (Num 60) NaN ''/opt/jdk8/bin/java'')
     (candidate (Num 8) (Num 50) (Num 9) ''/opt/jre8/bin/java'')
   \<and> ranks_above (candidate (Num 8) (Num 60) (Num 1) ''/opt/jdk8/bin/java'')
     (candidate (Num 8) (Num 60) (Num 0) ''/opt/jre8/bin/java'')
   \<and> ranks_above (candidate (Num 8) (Num 60) (Num 1) ''/opt/jre8/bin/java'')
     (candidate (Num 8) (Num 60) (Num 1) ''/opt/JDK8/bin/java'')
   \<and> sorted_by_compare
     [candidate (Num 8) (Num 60) (Num 1) ''/opt/jre8/bin/java'',
      candidate (Num 8) (Num 60) (Num 1) ''/opt/JDK8/bin/java'']"
proof -
  let ?jre = "candidate (Num 8) (Num 60) (Num 1) ''/opt/jre8/bin/java''"
  let ?jdk = "candidate (Num 8) (Num 60) (Num 1) ''/opt/JDK8/bin/java''"
  have jre: "\<not> includes_str (toLowerCase ''/opt/jre8/bin/java'') ''jdk''"
    and jdk: "includes_str (toLowerCase ''/opt/JDK8/bin/java'') ''jdk''"
    by (simp_all add: includes_str_def startsWith_def toLowerCase_def lower_char_def)
  have srt: "sorted_by_compare [?jre, ?jdk]"
    using jre by (simp add: sorted_by_compare_def sortCompare_def candidate_def jdk_tiebreak_def)
  have 1: "ranks_above (candidate (Num 11) (Num 0) (Num 9) ''/opt/jdk-11/bin/java'')
     (candidate (Num 8) (Num 60) (Num 1) ''/opt/jre8/bin/java'')"
    using C7_candidate_ordering [where ma = "Num 11" and mb = "Num 8" and ua = "Num 0" and ba = "Num 9"
        and pa = "''/opt/jdk-11/bin/java''" and ub = "Num 60" and bb = "Num 1"
        and pb = "''/opt/jre8/bin/java''" and out = "[]" and a = ?jre and b = ?jdk and i = 0 and j = 0]
    by simp
  have 2: "ranks_above (candidate (Num 8) (Num 60) NaN ''/opt/jdk8/bin/java'')
     (candidate (Num 8) (Num 50) (Num 9) ''/opt/jre8/bin/java'')"
    using C7_candidate_ordering [where ma = "Num 8" and mb = "Num 8" and ua = "Num 60" and ub = "Num 50"
        and ba = NaN and bb = "Num 9" and pa = "''/opt/jdk8/bin/java''" and pb = "''/opt/jre8/bin/java''"
        and out = "[]" and a = ?jre and b = ?jdk and i = 0 and j = 0]
    by simp
  have 3: "ranks_above (candidate (Num 8) (Num 60) (Num 1) ''/opt/jdk8/bin/java'')
     (candidate (Num 8) (Num 60) (Num 0) ''/opt/jre8/bin/java'')"
    using C7_candidate_ordering [where ma = "Num 8" and mb = "Num 8" and ua = "Num 60" and ub = "Num 60"
        and ba = "Num 1" and bb = "Num 0" and pa = "''/opt/jdk8/bin/java''" and pb = "''/opt/jre8/bin/java''"
        and out = "[]" and a = ?jre and b = ?jdk and i = 0 and j = 0]
    by simp
  have 4: "ranks_above ?jre ?jdk"
    using C7_candidate_ordering [where ma = "Num 8" and mb = "Num 8" and ua = "Num 60" and ub = "Num 60"
        and ba = "Num 1" and bb = "Num 1" and pa = "''/opt/jre8/bin/java''" and pb = "''/opt/JDK8/bin/java''"
        and out = "[]" and a = ?jre and b = ?jdk and i = 0 and j = 0] jre jdk
    by simp
  show ?thesis using 1 2 3 4 srt by simp
qed

section \<open>Binary validation\<close>

lemma line_passes_not_throws: "line_passes q l \<Longrightarrow> \<not> line_throws q l"
  by (auto simp: line_passes_def line_throws_def arch_ok_def version_ok_def version_line_def
      vendor_line_def split: sum.splits)

lemma loop_step_pass:
  assumes "line_passes q l" "c < goal"
  shows "\<exists>m'. validateJVMProperties_loop q (l # props) c m =
           (if Suc c = goal then Inr (m', Suc c) else validateJVMProperties_loop q props (Suc c) m')"
  using assms
  by (auto simp: line_passes_def arch_ok_def version_ok_def version_line_def arch_line_def
      split: sum.splits)

lemma loop_step_skip:
  assumes "\<not> line_passes q l" "\<not> line_throws q l"
  shows "\<exists>m'. validateJVMProperties_loop q (l # props) c m = validateJVMProperties_loop q props c m'"
  using assms
  by (auto simp: line_passes_def line_throws_def arch_ok_def version_ok_def version_line_def
      arch_line_def vendor_line_def split: sum.splits if_splits)

lemma loop_checksum:
  assumes "list_all (\<lambda>l. \<not> line_throws q l) props" "c < goal"
  shows "\<exists>m'. validateJVMProperties_loop q props c m =
           Inr (m', min goal (c + length (filter (line_passes q) props)))"
  using assms
proof (induction props arbitrary: c m)
  case Nil
  then show ?case by simp
next
  case (Cons l props)
  show ?case
  proof (cases "line_passes q l")
    case True
    from loop_step_pass [OF True Cons.prems(2), of props m] obtain m1 where
      st: "validateJVMProperties_loop q (l # props) c m =
           (if Suc c = goal then Inr (m1, Suc c) else validateJVMProperties_loop q props (Suc c) m1)"
      by blast
    show ?thesis
    proof (cases "Suc c = goal")
      case True
      then show ?thesis using st \<open>line_passes q l\<close> by simp
    next
      case False
      then have "Suc c < goal" using Cons.prems(2) by simp
      from Cons.IH [OF _ this, of m1] Cons.prems(1) obtain m' where
        "validateJVMProperties_loop q props (Suc c) m1 =
           Inr (m', min goal (Suc c + length (filter (line_passes q) props)))"
        by auto
      then show ?thesis using st False \<open>line_passes q l\<close> by simp
    qed
  next
    case False
    have nt: "\<not> line_throws q l" using Cons.prems(1) by simp
    from loop_step_skip [OF False nt, of props c m] obtain m1 where
      st: "validateJVMProperties_loop q (l # props) c m = validateJVMProperties_loop q props c m1"
      by blast
    from Cons.IH [OF _ Cons.prems(2), of m1] Cons.prems(1) obtain m' where
      "validateJVMProperties_loop q props c m1 =
         Inr (m', min goal (c + length (filter (line_passes q) props)))"
      by auto
    then show ?thesis using st False by simp
  qed
qed





















section \<open>Local validation and the validation passes: results\<close>

lemma lower_char_hex_all: "list_all (\<lambda>c. lower_char c = c) ''0123456789abcdef''"
  by (simp add: lower_char_def)

lemma lower_char_hex: "c \<in> set ''0123456789abcdef'' \<Longrightarrow> lower_char c = c"
  using lower_char_hex_all unfolding list_all_iff by blast

lemma lower_hex_digit: "lower_char (hex_digit n) = hex_digit n"
proof -
  have "''0123456789abcdef'' ! (n mod 16) \<in> set ''0123456789abcdef''"
    by (rule nth_mem) simp
  then show ?thesis unfolding hex_digit_def by (rule lower_char_hex)
qed

lemma toLowerCase_hex: "toLowerCase (hex_of_bytes bs) = hex_of_bytes bs"
  by (induction bs) (simp_all add: toLowerCase_def hex_of_bytes_def lower_hex_digit)

lemma validateLocal_matching:
  "dsk p = Some buf \<Longrightarrow> calculateHash dg buf algo = h \<Longrightarrow> validateLocal dg dsk p algo (Some h)"
  using toLowerCase_hex [of "dg algo buf"]
  by (auto simp: validateLocal_def calculateHash_def)

lemma validateLocal_null: "validateLocal dg dsk p algo None = (dsk p \<noteq> None)"
  by (simp add: validateLocal_def split: option.splits)

lemma validateAssets_loop_inv:
  assumes "validateAssets_loop env objPath n objects k q sz st = (r, st')"
  shows "disk st' = disk st \<and> libraries st' = libraries st \<and> files st' = files st
     \<and> assets st' = assets st
     \<and> (\<forall>q' sz'. r = Inr (q', sz') \<longrightarrow> list_all (invalid_here env st) q
          \<longrightarrow> list_all (invalid_here env st) q')"
  using assms
proof (induction objects arbitrary: k q sz st)
  case Nil
  then show ?case by auto
next
  case (Cons entry objects)
  let ?st1 = "emit (Emit_progress ''assets'' (Num (int (Suc k))) (Num (int n))) st"
  have same: "disk ?st1 = disk st" "libraries ?st1 = libraries st" "files ?st1 = files st"
    "assets ?st1 = assets st"
    by (simp_all add: emit_def)
  have same_inv: "invalid_here env ?st1 = invalid_here env st"
    by (rule ext) (simp add: invalid_here_def emit_def)
  show ?case
  proof (cases "obj_hash (snd entry)")
    case None
    then show ?thesis using Cons.prems same by (auto simp: Let_def)
  next
    case (Some hash)
    let ?ast = "\<lparr>asset_id = fst entry, asset_hash = Some hash, asset_size = obj_size (snd entry),
                         asset_from = ''https://resources.download.minecraft.net/'' @ (take 2 hash @ ''/'' @ hash),
                         asset_to = path_join (env_platform env) [objPath, path_join (env_platform env) [take 2 hash, hash]]\<rparr>"
    show ?thesis
    proof (cases "invalid_here env st ?ast")
      case False
      then have "validateAssets_loop env objPath n objects (Suc k) q sz ?st1 = (r, st')"
        using Cons.prems Some by (simp add: Let_def invalid_here_def emit_def)
      from Cons.IH [OF this] show ?thesis using same same_inv by simp
    next
      case True
      then have "validateAssets_loop env objPath n objects (Suc k) (q @ [?ast]) (sz + obj_size (snd entry)) ?st1 = (r, st')"
        using Cons.prems Some by (simp add: Let_def invalid_here_def emit_def)
      from Cons.IH [OF this] show ?thesis using same same_inv True by simp
    qed
  qed
qed

lemma validateLibraries_loop_inv:
  assumes "validateLibraries_loop env libPath libArr q sz st = Inr (q', sz')"
    and "list_all (invalid_here env st) q"
  shows "list_all (invalid_here env st) q'"
  using assms
proof (induction libArr arbitrary: q sz)
  case Nil
  then show ?case by simp
next
  case (Cons lib libArr)
  show ?case
  proof (cases "validateRules (env_platform env) (lib_rules lib) (lib_natives lib)")
    case False
    then show ?thesis using Cons by simp
  next
    case True
    then obtain a p where a: "resolve_artifact env lib = Inr a" and p: "art_path a = Some p"
      using Cons.prems(1) by (auto split: sum.splits option.splits)
    let ?itm = "\<lparr>asset_id = lib_name lib, asset_hash = art_sha1 a,
                                  asset_size = art_size a, asset_from = art_url a,
                                  asset_to = path_join (env_platform env) [libPath, p]\<rparr>"
    show ?thesis
    proof (cases "invalid_here env st ?itm")
      case False
      then have "validateLibraries_loop env libPath libArr q sz st = Inr (q', sz')"
        using Cons.prems(1) True a p by (simp add: Let_def invalid_here_def)
      from Cons.IH [OF this Cons.prems(2)] show ?thesis .
    next
      case inv: True
      then have "validateLibraries_loop env libPath libArr (q @ [?itm]) (sz + art_size a * 1) st = Inr (q', sz')"
        using Cons.prems(1) True a p by (simp add: Let_def invalid_here_def)
      from Cons.IH [OF this] show ?thesis using Cons.prems(2) inv by simp
    qed
  qed
qed

lemma queues_invalid_alt:
  "queues_invalid env st =
     (list_all (invalid_here env st) (dlqueue (assets st))
      \<and> list_all (invalid_here env st) (dlqueue (libraries st))
      \<and> list_all (invalid_here env st) (dlqueue (files st)))"
proof -
  have "invalid_here env st =
      (\<lambda>a. \<not> validateLocal (env_digest env) (disk st) (asset_to a) ''sha1'' (asset_hash a))"
    by (rule ext) (simp add: invalid_here_def)
  then show ?thesis by (simp add: queues_invalid_def)
qed

lemma invalid_here_cong:
  "disk st' = disk st \<Longrightarrow> invalid_here env st' = invalid_here env st"
  by (rule ext) (simp add: invalid_here_def)

lemma validateAssets_inv:
  assumes "queues_invalid env st"
  shows "queues_invalid env (snd (validateAssets env objects st))
       \<and> disk (snd (validateAssets env objects st)) = disk st"
proof -
  let ?op = "path_join (env_platform env) [path_join (env_platform env) [commonPath st, ''assets''], ''objects'']"
  obtain r st' where run: "validateAssets_loop env ?op (length objects) objects 0 [] 0 st = (r, st')"
    by (cases "validateAssets_loop env ?op (length objects) objects 0 [] 0 st")
  from validateAssets_loop_inv [OF run] have
    keep: "disk st' = disk st" "libraries st' = libraries st" "files st' = files st" "assets st' = assets st"
    and fresh: "\<And>q' sz'. r = Inr (q', sz') \<Longrightarrow> list_all (invalid_here env st) q'"
    by auto
  show ?thesis
  proof (cases r)
    case (Inl e)
    then have "snd (validateAssets env objects st) = st'"
      using run by (simp add: validateAssets_def Let_def)
    then show ?thesis using assms keep invalid_here_cong [OF keep(1)]
      by (simp add: queues_invalid_alt)
  next
    case (Inr qs)
    obtain q' sz' where qs: "qs = (q', sz')" by (cases qs)
    then have "snd (validateAssets env objects st) = st'\<lparr>assets := new_DLTracker q' sz'\<rparr>"
      using run Inr by (simp add: validateAssets_def Let_def)
    moreover have "invalid_here env (st'\<lparr>assets := new_DLTracker q' sz'\<rparr>) = invalid_here env st"
      using keep(1) by (intro invalid_here_cong) simp
    ultimately show ?thesis using assms keep fresh [of q' sz'] Inr qs
      by (simp add: queues_invalid_alt new_DLTracker_def)
  qed
qed

lemma validateLibraries_inv:
  assumes "queues_invalid env st"
  shows "queues_invalid env (snd (validateLibraries env vd st))
       \<and> disk (snd (validateLibraries env vd st)) = disk st"
proof -
  let ?lp = "path_join (env_platform env) [commonPath st, ''libraries'']"
  show ?thesis
  proof (cases "validateLibraries_loop env ?lp (vd_libraries vd) [] 0 st")
    case (Inl e)
    then show ?thesis using assms by (simp add: validateLibraries_def Let_def)
  next
    case (Inr qs)
    obtain q' sz' where qs: "qs = (q', sz')" by (cases qs)
    have fresh: "list_all (invalid_here env st) q'"
      using validateLibraries_loop_inv [of env ?lp "vd_libraries vd" "[]" 0 st q' sz'] Inr qs by simp
    have "snd (validateLibraries env vd st) = st\<lparr>libraries := new_DLTracker q' sz'\<rparr>"
      using Inr qs by (simp add: validateLibraries_def Let_def)
    moreover have "invalid_here env (st\<lparr>libraries := new_DLTracker q' sz'\<rparr>) = invalid_here env st"
      by (intro invalid_here_cong) simp
    ultimately show ?thesis using assms fresh
      by (simp add: queues_invalid_alt new_DLTracker_def)
  qed
qed

lemma validateClient_inv:
  assumes "queues_invalid env st"
  shows "queues_invalid env (snd (validateClient env vd False st))
       \<and> disk (snd (validateClient env vd False st)) = disk st"
  using assms
  by (auto simp: validateClient_def Let_def queues_invalid_def split: option.splits)

lemma validateLogConfig_inv:
  assumes "queues_invalid env st"
  shows "queues_invalid env (snd (validateLogConfig env vd st))
       \<and> disk (snd (validateLogConfig env vd st)) = disk st"
  using assms
  by (auto simp: validateLogConfig_def Let_def queues_invalid_def split: option.splits)

lemma validateMiscellaneous_inv:
  assumes "queues_invalid env st"
  shows "queues_invalid env (snd (validateMiscellaneous env vd st))
       \<and> disk (snd (validateMiscellaneous env vd st)) = disk st"
proof (cases "validateClient env vd False st")
  case (Pair r st')
  have c: "queues_invalid env st'" "disk st' = disk st"
    using validateClient_inv [OF assms, of vd] Pair by simp_all
  show ?thesis
  proof (cases r)
    case (Inl e)
    then show ?thesis using Pair c by (simp add: validateMiscellaneous_def)
  next
    case (Inr u)
    then show ?thesis using Pair c validateLogConfig_inv [OF c(1), of vd]
      by (simp add: validateMiscellaneous_def)
  qed
qed

lemma run_pass_inv:
  assumes "queues_invalid env st"
  shows "queues_invalid env (run_pass env st p) \<and> disk (run_pass env st p) = disk st"
  using validateAssets_inv [OF assms] validateLibraries_inv [OF assms]
    validateMiscellaneous_inv [OF assms]
  by (cases p) simp_all

lemma run_passes_inv:
  assumes "queues_invalid env st"
  shows "queues_invalid env (run_passes env st ps) \<and> disk (run_passes env st ps) = disk st"
  using assms unfolding run_passes_def
proof (induction ps arbitrary: st)
  case Nil
  then show ?case by simp
next
  case (Cons p ps)
  from run_pass_inv [OF Cons.prems, of p] Cons.IH [of "run_pass env st p"]
  show ?case by simp
qed

lemma new_AssetGuard_invalid: "queues_invalid env (new_AssetGuard cp je dsk)"
  by (simp add: queues_invalid_def new_AssetGuard_def new_DLTracker_def)

lemma valid_not_queued:
  assumes "validateLocal (env_digest env) dsk (asset_to a) ''sha1'' (asset_hash a)"
    and "st = run_passes env (new_AssetGuard cp je dsk) ps"
  shows "a \<notin> set (dlqueue (assets st)) \<and> a \<notin> set (dlqueue (libraries st))
       \<and> a \<notin> set (dlqueue (files st))"
proof -
  have inv: "queues_invalid env st" and d: "disk st = dsk"
    using run_passes_inv [OF new_AssetGuard_invalid, of env cp je dsk ps] assms(2)
    by (simp_all add: new_AssetGuard_def)
  show ?thesis
    using inv assms(1) d by (auto simp: queues_invalid_def list_all_iff)
qed

lemma validateAssets_fresh:
  assumes "fst (validateAssets env objects st) = Inr u"
    and "validateLocal (env_digest env) (disk st) (asset_to a) ''sha1'' (asset_hash a)"
  shows "a \<notin> set (dlqueue (assets (snd (validateAssets env objects st))))"
proof -
  let ?op = "path_join (env_platform env) [path_join (env_platform env) [commonPath st, ''assets''], ''objects'']"
  obtain r st' where run: "validateAssets_loop env ?op (length objects) objects 0 [] 0 st = (r, st')"
    by (cases "validateAssets_loop env ?op (length objects) objects 0 [] 0 st")
  then obtain q' sz' where r: "r = Inr (q', sz')"
    using assms(1) by (cases r) (auto simp: validateAssets_def Let_def)
  have "list_all (invalid_here env st) q'"
    using validateAssets_loop_inv [OF run] r by simp
  moreover have "dlqueue (assets (snd (validateAssets env objects st))) = q'"
    using run r by (simp add: validateAssets_def Let_def new_DLTracker_def)
  ultimately show ?thesis using assms(2) by (auto simp: list_all_iff invalid_here_def)
qed

lemma validateLibraries_fresh:
  assumes "fst (validateLibraries env vd st) = Inr u"
    and "validateLocal (env_digest env) (disk st) (asset_to a) ''sha1'' (asset_hash a)"
  shows "a \<notin> set (dlqueue (libraries (snd (validateLibraries env vd st))))"
proof -
  let ?lp = "path_join (env_platform env) [commonPath st, ''libraries'']"
  obtain q' sz' where r: "validateLibraries_loop env ?lp (vd_libraries vd) [] 0 st = Inr (q', sz')"
    using assms(1)
    by (cases "validateLibraries_loop env ?lp (vd_libraries vd) [] 0 st")
      (auto simp: validateLibraries_def Let_def)
  have "list_all (invalid_here env st) q'"
    using validateLibraries_loop_inv [OF r] by simp
  moreover have "dlqueue (libraries (snd (validateLibraries env vd st))) = q'"
    using r by (simp add: validateLibraries_def Let_def new_DLTracker_def)
  ultimately show ?thesis using assms(2) by (auto simp: list_all_iff invalid_here_def)
qed

text \<open>
  C2: an asset or library whose destination file exists and whose computed hash equals
  the expected hash is not put on the download queue by a validation pass, and is in
  none of the queues after any sequence of validation passes on a new object.
\<close>

theorem C2_valid_artifact_never_queued:
  assumes "dsk (asset_to a) = Some buf" and "asset_hash a = Some h"
    and "calculateHash (env_digest env) buf ''sha1'' = h"
  shows "(fst (validateAssets env objects st) = Inr () \<and> disk st = dsk \<longrightarrow>
            a \<notin> set (dlqueue (assets (snd (validateAssets env objects st)))))
       \<and> (fst (validateLibraries env vd st) = Inr () \<and> disk st = dsk \<longrightarrow>
            a \<notin> set (dlqueue (libraries (snd (validateLibraries env vd st)))))
       \<and> a \<notin> set (dlqueue (assets (run_passes env (new_AssetGuard cp je dsk) ps)))
       \<and> a \<notin> set (dlqueue (libraries (run_passes env (new_AssetGuard cp je dsk) ps)))
       \<and> a \<notin> set (dlqueue (files (run_passes env (new_AssetGuard cp je dsk) ps)))"
proof -
  have v: "validateLocal (env_digest env) dsk (asset_to a) ''sha1'' (asset_hash a)"
    using validateLocal_matching [of dsk "asset_to a" buf "env_digest env" "''sha1''" h] assms
    by simp
  show ?thesis
    using validateAssets_fresh [of env objects st "()" a] validateLibraries_fresh [of env vd st "()" a]
      valid_not_queued [OF v refl, of cp je ps] v
    by auto
qed

theorem C2_valid_artifact_never_queued_witness:
  "example_disk (asset_to example_asset) = Some ''good''
   \<and> calculateHash (env_digest example_env) ''good'' ''sha1'' = ''abcd''
   \<and> map asset_id (dlqueue (assets (run_passes example_env (new_AssetGuard ''/common'' ''java'' example_disk)
          [Validate_assets example_index, Validate_assets example_index]))) = [''lang/en.lang'']
   \<and> example_asset \<notin> set (dlqueue (assets (run_passes example_env
          (new_AssetGuard ''/common'' ''java'' example_disk)
          [Validate_assets example_index, Validate_assets example_index])))"
proof -
  have 1: "example_disk (asset_to example_asset) = Some ''good''"
    and 2: "asset_hash example_asset = Some ''abcd''"
    and 3: "calculateHash (env_digest example_env) ''good'' ''sha1'' = ''abcd''"
    by code_simp+
  have 4: "map asset_id (dlqueue (assets (run_passes example_env (new_AssetGuard ''/common'' ''java'' example_disk)
          [Validate_assets example_index, Validate_assets example_index]))) = [''lang/en.lang'']"
    by code_simp
  show ?thesis
    using C2_valid_artifact_never_queued [of example_disk example_asset "''good''" "''abcd''"
        example_env example_index "new_AssetGuard ''/common'' ''java'' example_disk"
        "\<lparr>vd_id = ''1.8.9'', vd_type = ''release'', vd_assets = ''1.8'', vd_libraries = [],
           vd_client = None, vd_log_file = None\<rparr>"
        "''/common''" "''java''" "[Validate_assets example_index, Validate_assets example_index]",
        OF 1 2 3] 1 3 4
    by blast
qed

text \<open>
  C3: with a null expected hash, local validation answers valid exactly when the
  destination file exists, whatever it contains; so a null-hash artifact with an
  existing file is never queued by the validation passes.
\<close>

theorem C3_null_hash_trusts_local_copy:
  "validateLocal dg dsk p algo None = (dsk p \<noteq> None)
   \<and> (asset_hash a = None \<and> dsk (asset_to a) \<noteq> None \<longrightarrow>
        (fst (validateAssets env objects st) = Inr () \<and> disk st = dsk \<longrightarrow>
            a \<notin> set (dlqueue (assets (snd (validateAssets env objects st)))))
        \<and> (fst (validateLibraries env vd st) = Inr () \<and> disk st = dsk \<longrightarrow>
            a \<notin> set (dlqueue (libraries (snd (validateLibraries env vd st)))))
        \<and> a \<notin> set (dlqueue (assets (run_passes env (new_AssetGuard cp je dsk) ps)))
        \<and> a \<notin> set (dlqueue (libraries (run_passes env (new_AssetGuard cp je dsk) ps)))
        \<and> a \<notin> set (dlqueue (files (run_passes env (new_AssetGuard cp je dsk) ps))))"
proof -
  have "a \<notin> set (dlqueue (assets (run_passes env (new_AssetGuard cp je dsk) ps)))
        \<and> a \<notin> set (dlqueue (libraries (run_passes env (new_AssetGuard cp je dsk) ps)))
        \<and> a \<notin> set (dlqueue (files (run_passes env (new_AssetGuard cp je dsk) ps)))"
    if "validateLocal (env_digest env) dsk (asset_to a) ''sha1'' (asset_hash a)"
    using valid_not_queued [OF that refl, of cp je ps] .
  then show ?thesis
    using validateAssets_fresh [of env objects st "()" a] validateLibraries_fresh [of env vd st "()" a]
      validateLocal_null [of "env_digest env" dsk "asset_to a" "''sha1''"]
    by (auto simp: validateLocal_null)
qed

theorem C3_null_hash_trusts_local_copy_witness:
  "validateLocal (env_digest example_env) example_disk (asset_to example_library) ''sha1'' None
   \<and> \<not> validateLocal (env_digest example_env) example_disk ''/common/libraries/absent.jar'' ''sha1'' None
   \<and> fst (validateLibraries example_env example_version_data
           (new_AssetGuard ''/common'' ''java'' example_disk)) = Inr ()
   \<and> example_library \<notin> set (dlqueue (libraries (snd (validateLibraries example_env example_version_data
           (new_AssetGuard ''/common'' ''java'' example_disk)))))
   \<and> example_library \<notin> set (dlqueue (libraries (run_passes example_env
           (new_AssetGuard ''/common'' ''java'' example_disk)
           [Validate_libraries example_version_data, Validate_libraries example_version_data])))"
proof -
  have 1: "asset_hash example_library = None"
    and 2: "example_disk (asset_to example_library) \<noteq> None"
    and 3: "example_disk ''/common/libraries/absent.jar'' = None"
    and 4: "fst (validateLibraries example_env example_version_data
           (new_AssetGuard ''/common'' ''java'' example_disk)) = Inr ()"
    by code_simp+
  have 5: "disk (new_AssetGuard ''/common'' ''java'' example_disk) = example_disk"
    by (simp add: new_AssetGuard_def)
  show ?thesis
    using C3_null_hash_trusts_local_copy [of "env_digest example_env" example_disk
        "asset_to example_library" "''sha1''" example_library example_env example_index
        "new_AssetGuard ''/common'' ''java'' example_disk" example_version_data
        "''/common''" "''java''"
        "[Validate_libraries example_version_data, Validate_libraries example_version_data]"]
      C3_null_hash_trusts_local_copy [of "env_digest example_env" example_disk
        "''/common/libraries/absent.jar''" "''sha1''" example_library example_env example_index
        "new_AssetGuard ''/common'' ''java'' example_disk" example_version_data
        "''/common''" "''java''" "[]"]
      1 2 3 4 5
    by simp
qed

section \<open>The download orchestrator: results\<close>

lemma stream_chunks_eq:
  "stream_chunks chunks st =
     st\<lparr>progress := progress st + int (length (concat chunks)),
        emitted := emitted st @ progress_events (progress st) (totaldlsize st) chunks\<rparr>"
  by (induction chunks arbitrary: st) (simp_all add: emit_def add.assoc)

lemma download_asset_200:
  assumes "env_network env (asset_from a) = Response 200 contentLength chunks"
  shows "download_asset env dlTracker a st =
     ((Resolved, None),
      st\<lparr>totaldlsize := adjusted_total contentLength a (totaldlsize st),
         progress := progress st + int (length (concat chunks)),
         disk := (disk st)(asset_to a \<mapsto> concat chunks),
         emitted := emitted st
           @ transfer_events env dlTracker a contentLength chunks (progress st) (totaldlsize st)\<rparr>)"
  using assms
  by (cases "callback dlTracker")
    (simp_all add: download_asset_def Let_def stream_chunks_eq emit_def transfer_events_def
      size_mismatch_def adjusted_total_def written_ok_def validateLocal_def)

lemma progress_events_only:
  "e \<in> set (progress_events p t chunks) \<Longrightarrow> \<exists>v. e = Emit_progress ''download'' v t"
  by (induction chunks arbitrary: p) auto



lemma download_asset_rejected:
  assumes "env_network env (asset_from a) = Network_error
     \<or> (\<exists>status len chunks. env_network env (asset_from a) = Response status len chunks
           \<and> \<not> (200 \<le> status \<and> status < 300))"
  shows "download_asset env dlTracker a st =
     ((Rejected, Some TypeError),
      st\<lparr>emitted := emitted st @ [Http_get (asset_from a), Emit_error ''download'']\<rparr>)"
  using assms by (auto simp: download_asset_def Let_def emit_def)

lemma download_asset_other_status:
  assumes "env_network env (asset_from a) = Response status contentLength chunks"
    and "200 < status" and "status < 300"
  shows "download_asset env dlTracker a st =
     ((Rejected, Some ReferenceError),
      st\<lparr>progress := progress st + int (length (concat chunks)),
         emitted := emitted st
           @ Http_get (asset_from a) # progress_events (progress st) (totaldlsize st) chunks\<rparr>)"
  using assms by (simp add: download_asset_def Let_def stream_chunks_eq emit_def)

text \<open>
  C5 (the code against the claim): when the request for the first artifact of a
  category fails (no response, or a status outside 200 to 299), the error event is
  emitted, the rejected promise throws out of the loop and out of
  \<open>startAsyncProcess\<close>: no later artifact is requested and the tracker keeps its
  queue. The claim says the later artifacts are still attempted and the queue is
  reset.
\<close>

theorem C5_fetch_failure_aborts_category:
  assumes "dlqueue (tracker st ident) = a # others"
    and "env_network env (asset_from a) = Network_error
     \<or> (\<exists>status len chunks. env_network env (asset_from a) = Response status len chunks
           \<and> \<not> (200 \<le> status \<and> status < 300))"
  shows "startAsyncProcess env ident st =
     (Inl Thrown_undefined,
      st\<lparr>emitted := emitted st @ [Log_dlqueue, Http_get (asset_from a), Emit_error ''download'']\<rparr>)"
  using assms(1) download_asset_rejected [OF assms(2), of "tracker st ident" "emit Log_dlqueue st"]
  by (simp add: startAsyncProcess_def Let_def emit_def)

lemma quiet_step_trans:
  "quiet_step d1 st st1 \<Longrightarrow> quiet_step d2 st1 st2 \<Longrightarrow> quiet_step (d1 + d2) st st2"
  unfolding quiet_step_def by (auto simp: algebra_simps)

lemma quiet_step_emit:
  "e \<noteq> Emit_complete ''download'' \<Longrightarrow> (\<exists>g. totaldlsize st = Num (progress st + g)) \<Longrightarrow>
   quiet_step 0 st (emit e st)"
  unfolding quiet_step_def by (auto simp: emit_def)

lemma transfer_events_no_complete:
  "Emit_complete ''download'' \<notin> set (transfer_events env dlTracker a contentLength chunks p t)"
  by (auto simp: transfer_events_def dest: progress_events_only split: option.splits)

lemma download_asset_clean:
  assumes "clean_transfer env a" and "totaldlsize st = Num (progress st + g)"
  shows "\<exists>st'. download_asset env dlTracker a st = ((Resolved, None), st')
           \<and> quiet_step (asset_size a) st st'"
proof -
  obtain chunks where net:
    "env_network env (asset_from a) = Response 200 (Num (int (length (concat chunks)))) chunks"
    using assms(1) by (auto simp: clean_transfer_def split: transfer.splits)
  let ?n = "int (length (concat chunks))"
  let ?st' = "st\<lparr>totaldlsize := adjusted_total (Num ?n) a (totaldlsize st),
         progress := progress st + ?n,
         disk := (disk st)(asset_to a \<mapsto> concat chunks),
         emitted := emitted st
           @ transfer_events env dlTracker a (Num ?n) chunks (progress st) (totaldlsize st)\<rparr>"
  have "adjusted_total (Num ?n) a (totaldlsize st) = Num (progress st + ?n + (g - asset_size a))"
    using assms(2) by (auto simp: adjusted_total_def size_mismatch_def)
  then have "quiet_step (asset_size a) st ?st'"
    using assms(2) transfer_events_no_complete
    unfolding quiet_step_def by auto
  then show ?thesis using download_asset_200 [OF net] by blast
qed

lemma quiet_step_total:
  "quiet_step d st st' \<Longrightarrow> totaldlsize st = Num (progress st + g) \<Longrightarrow>
   totaldlsize st' = Num (progress st' + (g - d))"
  unfolding quiet_step_def by auto

lemma download_queue_clean:
  assumes "list_all (clean_transfer env) q" and "totaldlsize st = Num (progress st + g)"
  shows "\<exists>st'. download_queue env dlTracker q err st = (Inr err, st')
           \<and> quiet_step (sum_list (map asset_size q)) st st'"
  using assms
proof (induction q arbitrary: st g)
  case Nil
  then show ?case unfolding quiet_step_def by auto
next
  case (Cons a q)
  from Cons.prems have ca: "clean_transfer env a" and cq: "list_all (clean_transfer env) q" by simp_all
  from download_asset_clean [OF ca Cons.prems(2), of dlTracker] obtain st1 where
    1: "download_asset env dlTracker a st = ((Resolved, None), st1)"
    and q1: "quiet_step (asset_size a) st st1" by blast
  from Cons.IH [OF cq quiet_step_total [OF q1 Cons.prems(2)]] obtain st2 where
    2: "download_queue env dlTracker q err st1 = (Inr err, st2)"
    and q2: "quiet_step (sum_list (map asset_size q)) st1 st2" by blast
  show ?case using 1 2 quiet_step_trans [OF q1 q2] by simp
qed

lemma tracker_set_tracker:
  "tracker (set_tracker i t st) c = (if c = i then t else tracker st c)"
  by (cases i; cases c; simp)

lemma set_tracker_fields:
  "totaldlsize (set_tracker i t st) = totaldlsize st" "progress (set_tracker i t st) = progress st"
  "extractQueue (set_tracker i t st) = extractQueue st" "javaexec (set_tracker i t st) = javaexec st"
  "emitted (set_tracker i t st) = emitted st"
  by (cases i; simp)+

lemma tracker_frame:
  "assets st' = assets st \<Longrightarrow> libraries st' = libraries st \<Longrightarrow> files st' = files st \<Longrightarrow>
   forge st' = forge st \<Longrightarrow> java st' = java st \<Longrightarrow> tracker st' c = tracker st c"
  by (cases c) simp_all

lemma tracker_emit [simp]: "tracker (emit e st) c = tracker st c"
  by (cases c) (simp_all add: emit_def)

lemma tracker_extractQueue_update [simp]: "tracker (st\<lparr>extractQueue := q\<rparr>) c = tracker st c"
  by (cases c) simp_all

lemma startAsyncProcess_empty:
  "dlqueue (tracker st ident) = [] \<Longrightarrow> startAsyncProcess env ident st = (Inr False, st)"
  by (simp add: startAsyncProcess_def)

lemma startAsyncProcess_ready:
  assumes rdy: "tracker_ready env (tracker st ident)" and ne: "dlqueue (tracker st ident) \<noteq> []"
    and tot: "totaldlsize st = Num (progress st + g)"
  shows "\<exists>st' pre. startAsyncProcess env ident st = (Inr True, st')
      \<and> tracker st' ident = new_DLTracker [] 0
      \<and> (\<forall>c. c \<noteq> ident \<longrightarrow> tracker st' c = tracker st c)
      \<and> totaldlsize st' = Num (progress st' + (g - dlsize (tracker st ident)))
      \<and> javaexec st' = javaexec st
      \<and> extractQueue st' = (if g - dlsize (tracker st ident) \<le> 0 then [] else extractQueue st)
      \<and> emitted st' = emitted st @ pre
            @ (if g - dlsize (tracker st ident) \<le> 0 then closing_events st else [])
      \<and> Emit_complete ''download'' \<notin> set pre"
proof -
  let ?t = "tracker st ident"
  let ?d = "dlsize ?t"
  have d: "?d = sum_list (map asset_size (dlqueue ?t))"
    and clean: "list_all (clean_transfer env) (dlqueue ?t)"
    using rdy by (auto simp: tracker_ready_def list_all_iff)
  let ?st0 = "emit Log_dlqueue st"
  have q0: "quiet_step 0 st ?st0"
    using tot by (intro quiet_step_emit) auto
  have tot0: "totaldlsize ?st0 = Num (progress ?st0 + g)"
    using tot by (simp add: emit_def)
  from download_queue_clean [OF clean tot0, of ?t None] obtain st1 where
    run: "download_queue env ?t (dlqueue ?t) None ?st0 = (Inr None, st1)"
    and q1: "quiet_step ?d ?st0 st1"
    using d by auto
  from quiet_step_trans [OF q0 q1] have q: "quiet_step ?d st st1" by simp
  then obtain evs where
    tot1: "totaldlsize st1 = Num (progress st1 + (g - ?d))"
    and fr: "assets st1 = assets st" "libraries st1 = libraries st" "files st1 = files st"
      "forge st1 = forge st" "java st1 = java st"
    and xq: "extractQueue st1 = extractQueue st" and je: "javaexec st1 = javaexec st"
    and ev: "emitted st1 = emitted st @ evs" and nc: "Emit_complete ''download'' \<notin> set evs"
    using tot unfolding quiet_step_def by auto
  have tr1: "\<And>c. tracker st1 c = tracker st c"
    using fr by (rule tracker_frame)
  let ?st3 = "set_tracker ident (new_DLTracker [] 0) (emit (Log_all_processed ident) st1)"
  let ?st4 = "if js_ge (Num (progress ?st3)) (totaldlsize ?st3) then
                (if extractQueue ?st3 \<noteq> [] then
                   emit (Emit_complete ''download'')
                     ((emit (Extract_pack_xz (extractQueue ?st3) (javaexec ?st3))
                         (emit (Emit_progress ''extract'' (Num 1) (Num 1)) ?st3))
                        \<lparr>extractQueue := []\<rparr>)
                 else emit (Emit_complete ''download'') ?st3)
              else ?st3"
  have res: "startAsyncProcess env ident st = (Inr True, ?st4)"
    using ne run by (simp add: startAsyncProcess_def Let_def)
  have f3: "totaldlsize ?st3 = Num (progress st1 + (g - ?d))" "progress ?st3 = progress st1"
    "extractQueue ?st3 = extractQueue st" "javaexec ?st3 = javaexec st"
    "emitted ?st3 = emitted st @ evs @ [Log_all_processed ident]"
    using tot1 xq je ev by (simp_all add: set_tracker_fields emit_def)
  have ge: "js_ge (Num (progress ?st3)) (totaldlsize ?st3) = (g - ?d \<le> 0)"
    using f3 by simp
  have t3: "\<And>c. tracker ?st3 c = (if c = ident then new_DLTracker [] 0 else tracker st c)"
    by (simp add: tracker_set_tracker tr1)
  let ?pre = "evs @ [Log_all_processed ident]"
  have "tracker ?st4 ident = new_DLTracker [] 0"
    using t3 by simp
  moreover have "\<forall>c. c \<noteq> ident \<longrightarrow> tracker ?st4 c = tracker st c"
    using t3 by simp
  moreover have "totaldlsize ?st4 = Num (progress ?st4 + (g - ?d))"
    using f3 by (simp add: emit_def)
  moreover have "javaexec ?st4 = javaexec st"
    using f3 by (simp add: emit_def)
  moreover have "extractQueue ?st4 = (if g - ?d \<le> 0 then [] else extractQueue st)"
    using f3 ge by (simp add: emit_def)
  moreover have "emitted ?st4 = emitted st @ ?pre @ (if g - ?d \<le> 0 then closing_events st else [])"
    using f3 ge by (simp add: emit_def closing_events_def)
  moreover have "Emit_complete ''download'' \<notin> set ?pre"
    using nc by simp
  ultimately show ?thesis using res by blast
qed

lemma ready_dlsize:
  assumes "tracker_ready env t"
  shows "0 \<le> dlsize t" and "(dlsize t \<le> 0) = (dlqueue t = [])"
proof -
  have pos: "\<And>a. a \<in> set (dlqueue t) \<Longrightarrow> 0 < asset_size a"
    and d: "dlsize t = sum_list (map asset_size (dlqueue t))"
    using assms by (auto simp: tracker_ready_def list_all_iff)
  have nn: "0 \<le> sum_list (map asset_size (dlqueue t))"
    by (rule sum_list_nonneg) (use pos in force)
  show "0 \<le> dlsize t" using nn d by simp
  show "(dlsize t \<le> 0) = (dlqueue t = [])"
  proof (cases "dlqueue t")
    case Nil
    then show ?thesis using d by simp
  next
    case (Cons a q)
    have "0 \<le> sum_list (map asset_size q)"
      by (rule sum_list_nonneg) (use pos Cons in force)
    moreover have "0 < asset_size a" using pos Cons by simp
    ultimately show ?thesis using d Cons by simp
  qed
qed

lemma ready_expected_total:
  assumes "list_all (\<lambda>iden. tracker_ready env (tracker st (fst iden))) ids"
  shows "0 \<le> expected_total ids st" and "(expected_total ids st \<le> 0) = all_empty ids st"
  using assms
proof (induction ids)
  case Nil
  { case 1 show ?case by (simp add: expected_total_def) }
  { case 2 show ?case by (simp add: expected_total_def all_empty_def) }
next
  case (Cons i ids)
  { case 1
    then show ?case
      using Cons.IH(1) ready_dlsize(1) [of env "tracker st (fst i)"]
      by (simp add: expected_total_def) }
  { case 2
    then show ?case
      using Cons.IH ready_dlsize [of env "tracker st (fst i)"]
      by (auto simp: expected_total_def all_empty_def) }
qed

lemma expected_total_frame:
  assumes "\<And>c. c \<in> fst ` set ids \<Longrightarrow> tracker st' c = tracker st c"
  shows "expected_total ids st' = expected_total ids st"
    and "all_empty ids st' = all_empty ids st"
    and "list_all (\<lambda>iden. tracker_ready env (tracker st' (fst iden))) ids
       = list_all (\<lambda>iden. tracker_ready env (tracker st (fst iden))) ids"
  using assms by (induction ids) (auto simp: expected_total_def all_empty_def)

lemma process_loop_ready:
  assumes "distinct (map fst ids)"
    and "list_all (\<lambda>iden. tracker_ready env (tracker st (fst iden))) ids"
    and "totaldlsize st = Num (progress st + expected_total ids st)"
  shows "\<exists>st' pre. process_loop env ids sf st = (Inr (sf \<and> all_empty ids st), st')
      \<and> (\<forall>iden \<in> set ids. dlqueue (tracker st' (fst iden)) = [])
      \<and> (\<forall>c. c \<notin> fst ` set ids \<longrightarrow> tracker st' c = tracker st c)
      \<and> emitted st' = emitted st @ (if all_empty ids st then [] else pre @ closing_events st)
      \<and> Emit_complete ''download'' \<notin> set pre"
  using assms
proof (induction ids arbitrary: st sf)
  case Nil
  then show ?case by (auto simp: all_empty_def intro: exI [of _ "[]"])
next
  case (Cons i ids)
  let ?t = "tracker st (fst i)"
  have di: "fst i \<notin> fst ` set ids" and dist: "distinct (map fst ids)"
    using Cons.prems(1) by auto
  have rdy_i: "tracker_ready env ?t"
    and rdy: "list_all (\<lambda>iden. tracker_ready env (tracker st (fst iden))) ids"
    using Cons.prems(2) by simp_all
  have tot: "totaldlsize st = Num (progress st + (dlsize ?t + expected_total ids st))"
    using Cons.prems(3) by (simp add: expected_total_def)
  show ?case
  proof (cases "dlqueue ?t = []")
    case True
    then have z: "dlsize ?t = 0" using ready_dlsize(2) [OF rdy_i] ready_dlsize(1) [OF rdy_i] by simp
    have tot': "totaldlsize st = Num (progress st + expected_total ids st)"
      using tot z by simp
    from Cons.IH [OF dist rdy tot', of sf] obtain st' pre where
      "process_loop env ids sf st = (Inr (sf \<and> all_empty ids st), st')"
      "\<forall>iden \<in> set ids. dlqueue (tracker st' (fst iden)) = []"
      "\<forall>c. c \<notin> fst ` set ids \<longrightarrow> tracker st' c = tracker st c"
      "emitted st' = emitted st @ (if all_empty ids st then [] else pre @ closing_events st)"
      "Emit_complete ''download'' \<notin> set pre"
      by blast
    moreover have "all_empty (i # ids) st = all_empty ids st"
      using True by (simp add: all_empty_def)
    moreover have "dlqueue (tracker st' (fst i)) = []"
      using calculation(3) di True by simp
    ultimately show ?thesis
      using startAsyncProcess_empty [OF True, of env]
      by (intro exI [of _ st'] exI [of _ pre]) auto
  next
    case False
    let ?g' = "dlsize ?t + expected_total ids st - dlsize ?t"
    from startAsyncProcess_ready [OF rdy_i False tot] obtain st1 pre1 where
      run1: "startAsyncProcess env (fst i) st = (Inr True, st1)"
      and ti: "tracker st1 (fst i) = new_DLTracker [] 0"
      and fr1: "\<forall>c. c \<noteq> fst i \<longrightarrow> tracker st1 c = tracker st c"
      and tot1: "totaldlsize st1 = Num (progress st1 + ?g')"
      and je1: "javaexec st1 = javaexec st"
      and xq1: "extractQueue st1 = (if ?g' \<le> 0 then [] else extractQueue st)"
      and ev1: "emitted st1 = emitted st @ pre1 @ (if ?g' \<le> 0 then closing_events st else [])"
      and nc1: "Emit_complete ''download'' \<notin> set pre1"
      by blast
    have same: "tracker st1 c = tracker st c" if "c \<in> fst ` set ids" for c
    proof -
      from that di have "c \<noteq> fst i" by blast
      then show ?thesis using fr1 by simp
    qed
    note fr = expected_total_frame [of ids st1 st, OF same]
    have rdy1: "list_all (\<lambda>iden. tracker_ready env (tracker st1 (fst iden))) ids"
      using rdy fr(3) [of env] by simp
    have tot1': "totaldlsize st1 = Num (progress st1 + expected_total ids st1)"
      using tot1 fr(1) by simp
    from Cons.IH [OF dist rdy1 tot1', of False] obtain st' pre2 where
      run2: "process_loop env ids False st1 = (Inr False, st')"
      and em2: "\<forall>iden \<in> set ids. dlqueue (tracker st' (fst iden)) = []"
      and fr2: "\<forall>c. c \<notin> fst ` set ids \<longrightarrow> tracker st' c = tracker st1 c"
      and ev2: "emitted st' = emitted st1 @ (if all_empty ids st1 then [] else pre2 @ closing_events st1)"
      and nc2: "Emit_complete ''download'' \<notin> set pre2"
      by auto
    have ae: "all_empty ids st1 = (?g' \<le> 0)"
      using ready_expected_total(2) [OF rdy] fr(2) by simp
    have res: "process_loop env (i # ids) sf st = (Inr (sf \<and> all_empty (i # ids) st), st')"
      using run1 run2 False by (simp add: all_empty_def)
    have q: "\<forall>iden \<in> set (i # ids). dlqueue (tracker st' (fst iden)) = []"
      using em2 fr2 di ti by (simp add: new_DLTracker_def)
    have f: "\<forall>c. c \<notin> fst ` set (i # ids) \<longrightarrow> tracker st' c = tracker st c"
      using fr1 fr2 by auto
    have nae: "\<not> all_empty (i # ids) st" using False by (simp add: all_empty_def)
    show ?thesis
    proof (cases "?g' \<le> 0")
      case True
      then have "emitted st' = emitted st @ pre1 @ closing_events st"
        using ev1 ev2 ae by simp
      then show ?thesis using res q f nae nc1
        by (intro exI [of _ st'] exI [of _ pre1]) simp
    next
      case pos: False
      then have "closing_events st1 = closing_events st"
        using xq1 je1 by (simp add: closing_events_def)
      then have "emitted st' = emitted st @ (pre1 @ pre2) @ closing_events st"
        using ev1 ev2 ae pos by simp
      then show ?thesis using res q f nae nc1 nc2
        by (intro exI [of _ st'] exI [of _ "pre1 @ pre2"]) simp
    qed
  qed
qed

lemma sum_dlsize_eq:
  assumes "totaldlsize st = Num t"
  shows "sum_dlsize ids st = st\<lparr>totaldlsize := Num (t + expected_total ids st)\<rparr>"
  using assms
proof (induction ids arbitrary: st t)
  case Nil
  then show ?case by (simp add: expected_total_def)
next
  case (Cons i ids)
  let ?st1 = "st\<lparr>totaldlsize := Num (t + dlsize (tracker st (fst i)))\<rparr>"
  have tr: "\<And>c. tracker ?st1 c = tracker st c" by (rule tracker_frame) simp_all
  have "expected_total ids ?st1 = expected_total ids st"
    by (rule expected_total_frame(1)) (simp add: tr)
  then show ?case
    using Cons.IH [of ?st1 "t + dlsize (tracker st (fst i))"] Cons.prems
    by (simp add: expected_total_def add.assoc)
qed

lemma emit_complete_count:
  "Emit_complete ''download'' \<notin> set pre \<Longrightarrow> completions (pre @ closing_events st) = 1"
  "Emit_complete ''download'' \<notin> set pre \<Longrightarrow> completions (pre @ [Emit_complete ''download'']) = 1"
  by (auto simp: completions_def closing_events_def filter_empty_conv)

text \<open>
  A run in which every transfer goes well: for distinct category identifiers whose
  trackers are ready, the expected total is the sum of the trackers' sizes, the
  promise resolves, every processed queue ends empty, and the aggregate completion is
  emitted once, as the last event, after the unpack step of a non-empty extract queue
  when some queue had artifacts.
\<close>

lemma processDlQueues_clean_run:
  assumes "distinct (map fst ids)"
    and "list_all (\<lambda>iden. tracker_ready env (tracker st (fst iden))) ids"
  shows "totaldlsize (sum_dlsize ids (st\<lparr>totaldlsize := Num 0, progress := 0\<rparr>))
           = Num (expected_total ids st)
     \<and> fst (processDlQueues env ids st) = Resolves
     \<and> list_all (\<lambda>iden. dlqueue (tracker (snd (processDlQueues env ids st)) (fst iden)) = []) ids
     \<and> completions (new_events st (snd (processDlQueues env ids st))) = 1
     \<and> (\<exists>pre. Emit_complete ''download'' \<notin> set pre
          \<and> new_events st (snd (processDlQueues env ids st))
              = pre @ (if all_empty ids st then [Emit_complete ''download''] else closing_events st))"
proof -
  let ?st0 = "st\<lparr>totaldlsize := Num 0, progress := 0\<rparr>"
  have tr0: "\<And>c. tracker ?st0 c = tracker st c" by (rule tracker_frame) simp_all
  have et0: "expected_total ids ?st0 = expected_total ids st"
    by (rule expected_total_frame(1)) (rule tracker_frame; simp)
  let ?st1 = "?st0\<lparr>totaldlsize := Num (expected_total ids st)\<rparr>"
  have s1: "sum_dlsize ids ?st0 = ?st1"
    using sum_dlsize_eq [of ?st0 0 ids] et0 by simp
  have tr1: "\<And>c. tracker ?st1 c = tracker st c" by (rule tracker_frame) simp_all
  have et1: "expected_total ids ?st1 = expected_total ids st"
    by (rule expected_total_frame(1)) (rule tracker_frame; simp)
  have ae1: "all_empty ids ?st1 = all_empty ids st"
    by (rule expected_total_frame(2)) (rule tracker_frame; simp)
  have "\<And>c. tracker ?st1 c = tracker st c" by (rule tracker_frame; simp)
  then have rd1: "list_all (\<lambda>iden. tracker_ready env (tracker ?st1 (fst iden))) ids"
    using assms(2) by simp
  have tot1: "totaldlsize ?st1 = Num (progress ?st1 + expected_total ids ?st1)"
    using et1 by simp
  from process_loop_ready [OF assms(1) rd1 tot1, of True] obtain st' pre where
    run1: "process_loop env ids True ?st1 = (Inr (True \<and> all_empty ids ?st1), st')"
    and em: "\<forall>iden \<in> set ids. dlqueue (tracker st' (fst iden)) = []"
    and ev1: "emitted st' = emitted ?st1 @ (if all_empty ids ?st1 then [] else pre @ closing_events ?st1)"
    and nc: "Emit_complete ''download'' \<notin> set pre"
    by blast
  have run: "process_loop env ids True ?st1 = (Inr (all_empty ids st), st')"
    using run1 ae1 by simp
  have ce: "closing_events ?st1 = closing_events st"
    by (simp add: closing_events_def)
  have ev: "emitted st' = emitted st @ (if all_empty ids st then [] else pre @ closing_events st)"
    using ev1 ae1 ce by simp
  let ?fin = "if all_empty ids st then emit (Emit_complete ''download'') st' else st'"
  have new: "new_events st ?fin
      = (if all_empty ids st then [] else pre) @ (if all_empty ids st then [Emit_complete ''download''] else closing_events st)"
    using ev by (simp add: new_events_def emit_def)
  have same: "new_events ?st1 ?fin = new_events st ?fin"
    by (simp add: new_events_def)
  have "Emit_complete ''download'' \<in> set (new_events st ?fin)"
    using new by (simp add: closing_events_def)
  then have "list_ex is_complete (new_events ?st1 ?fin)"
    unfolding same list_ex_iff by (intro bexI [of _ "Emit_complete ''download''"]) simp_all
  then have res: "processDlQueues env ids st = (Resolves, ?fin)"
    using s1 run by (simp add: processDlQueues_def Let_def)
  have q: "list_all (\<lambda>iden. dlqueue (tracker ?fin (fst iden)) = []) ids"
    using em by (simp add: list_all_iff)
  have cnt: "completions (new_events st ?fin) = 1"
    using new nc emit_complete_count(1) [of pre st] emit_complete_count(2) [of "[]"] by simp
  have ex: "\<exists>pre. Emit_complete ''download'' \<notin> set pre
          \<and> new_events st ?fin = pre @ (if all_empty ids st then [Emit_complete ''download''] else closing_events st)"
    using new nc by (intro exI [of _ "if all_empty ids st then [] else pre"]) simp
  show ?thesis using s1 res q cnt ex by simp
qed

text \<open>
  C6 (the code against the claim): the completion is tested after each category, not
  once after all of them. With an asset of 100 bytes and a library file of size 0,
  both transferred without error, the expected total is 100; the completion is emitted
  after the assets, where the progress has reached the total and the library has not
  been requested yet, which resolves the promise, and it is emitted a second time
  after the libraries. With one artifact whose response has no content length, the
  total becomes \<open>NaN\<close>, no completion is emitted and the promise never settles. The
  claim says that exactly one completion is emitted, after all requested categories
  are drained.
\<close>

theorem C6_completion_fires_twice_or_never:
  "totaldlsize (snd (processDlQueues example_download_env [(Assets, 10), (Libraries, 10)]
        (example_guard [example_artifact ''asset'' None 100] [example_artifact ''empty'' None 0])))
      = Num 100
   \<and> emitted (snd (processDlQueues example_download_env [(Assets, 10), (Libraries, 10)]
        (example_guard [example_artifact ''asset'' None 100] [example_artifact ''empty'' None 0])))
      = [Log_dlqueue, Http_get ''https://host/asset'',
         Emit_progress ''download'' (Num 60) (Num 100),
         Emit_progress ''download'' (Num 100) (Num 100),
         Log_all_processed Assets, Emit_complete ''download'',
         Log_dlqueue, Http_get ''https://host/empty'',
         Log_all_processed Libraries, Emit_complete ''download'']
   \<and> fst (processDlQueues example_download_env [(Assets, 10), (Libraries, 10)]
        (example_guard [example_artifact ''asset'' None 100] [example_artifact ''empty'' None 0]))
      = Resolves
   \<and> totaldlsize (snd (processDlQueues example_download_env [(Assets, 10), (Libraries, 10)]
        (example_guard [example_artifact ''unsized'' None 100] []))) = NaN
   \<and> emitted (snd (processDlQueues example_download_env [(Assets, 10), (Libraries, 10)]
        (example_guard [example_artifact ''unsized'' None 100] [])))
      = [Log_dlqueue, Http_get ''https://host/unsized'', Log_size_mismatch ''unsized'',
         Emit_progress ''download'' (Num 100) NaN, Log_hashes_match ''unsized'',
         Log_all_processed Assets]
   \<and> fst (processDlQueues example_download_env [(Assets, 10), (Libraries, 10)]
        (example_guard [example_artifact ''unsized'' None 100] [])) = Never_settles"
  by code_simp


theorem C5_fetch_failure_aborts_category_witness:
  "dlqueue (tracker (example_guard [] [example_artifact ''offline'' None 10, example_artifact ''library'' None 50])
      Libraries) = [example_artifact ''offline'' None 10, example_artifact ''library'' None 50]
   \<and> env_network example_download_env (asset_from (example_artifact ''offline'' None 10)) = Network_error
   \<and> fst (startAsyncProcess example_download_env Libraries
        (example_guard [] [example_artifact ''offline'' None 10, example_artifact ''library'' None 50]))
      = Inl Thrown_undefined
   \<and> new_events (example_guard [] [example_artifact ''offline'' None 10, example_artifact ''library'' None 50])
        (snd (startAsyncProcess example_download_env Libraries
          (example_guard [] [example_artifact ''offline'' None 10, example_artifact ''library'' None 50])))
      = [Log_dlqueue, Http_get ''https://host/offline'', Emit_error ''download'']
   \<and> dlqueue (libraries (snd (startAsyncProcess example_download_env Libraries
          (example_guard [] [example_artifact ''offline'' None 10, example_artifact ''library'' None 50]))))
      = [example_artifact ''offline'' None 10, example_artifact ''library'' None 50]"
proof -
  let ?st = "example_guard [] [example_artifact ''offline'' None 10, example_artifact ''library'' None 50]"
  have 1: "dlqueue (tracker ?st Libraries)
      = example_artifact ''offline'' None 10 # [example_artifact ''library'' None 50]"
    by (simp add: example_guard_def new_DLTracker_def)
  have 2: "env_network example_download_env (asset_from (example_artifact ''offline'' None 10)) = Network_error"
    by (simp add: example_download_env_def example_network_def example_artifact_def)
  have 3: "asset_from (example_artifact ''offline'' None 10) = ''https://host/offline''"
    by (simp add: example_artifact_def)
  show ?thesis
    using C5_fetch_failure_aborts_category [OF 1 disjI1 [OF 2]] 1 2 3
    by (simp add: new_events_def)
qed

section \<open>The classpath of the launch composer\<close>

















end
